theory Spec2Isabelle
  imports Complex_Main
begin

unbundle bit_operations_syntax

section \<open>Bytes, text and the Python values of the telegram reader\<close>

text \<open>
  The program is \<^verbatim>\<open>smartmeter-influxdb.py\<close>. A Python \<^verbatim>\<open>bytes\<close> object and a
  Python \<^verbatim>\<open>str\<close> that holds ASCII text are both lists of 8-bit characters.
\<close>

type_synonym bytes = string

definition CR :: char where
  "CR = CHR 0x0D"

definition LF :: char where
  "LF = CHR 0x0A"

definition CRLF :: bytes where
  "CRLF = [CR, LF]"

text \<open>The exceptions the two classes can raise, built in ones included.\<close>

datatype error =
    SmartMeterError
  | P1PacketError
  | UnboundLocalError
  | UnicodeDecodeError
  | ValueError
  | TypeError
  | KeyError
  | AttributeError

definition ebind :: "error + 'a \<Rightarrow> ('a \<Rightarrow> error + 'b) \<Rightarrow> error + 'b" where
  "ebind m f = (case m of Inl e \<Rightarrow> Inl e | Inr x \<Rightarrow> f x)"

text \<open>
  \<^verbatim>\<open>bytes.strip()\<close> and \<^verbatim>\<open>bytes.lstrip()\<close> remove the six ASCII whitespace bytes
  (space, tab, line feed, carriage return, vertical tab, form feed). \<^verbatim>\<open>str.strip()\<close>
  removes every character for which \<^verbatim>\<open>str.isspace()\<close> holds, which below 128 adds the
  four separators 0x1C to 0x1F.
\<close>

definition is_bspace :: "char \<Rightarrow> bool" where
  "is_bspace c = ((of_char c :: int) = 32 \<or> (9 \<le> (of_char c :: int) \<and> (of_char c :: int) \<le> 13))"

definition is_sspace :: "char \<Rightarrow> bool" where
  "is_sspace c = (is_bspace c \<or> (28 \<le> (of_char c :: int) \<and> (of_char c :: int) \<le> 31))"

definition bytes_lstrip :: "bytes \<Rightarrow> bytes" where
  "bytes_lstrip s = dropWhile is_bspace s"

definition bytes_strip :: "bytes \<Rightarrow> bytes" where
  "bytes_strip s = rev (dropWhile is_bspace (rev (dropWhile is_bspace s)))"

definition str_strip :: "string \<Rightarrow> string" where
  "str_strip s = rev (dropWhile is_sspace (rev (dropWhile is_sspace s)))"

definition decode_ascii :: "bytes \<Rightarrow> error + string" where
  "decode_ascii b = (if list_all (\<lambda>c. (of_char c :: int) < 128) b then Inr b else Inl UnicodeDecodeError)"

text \<open>
  The values stored in the \<^verbatim>\<open>keys\<close> dictionary. A Python float is modelled by the real
  number it stands for: the rounding of IEEE 754 doubles is not part of the model. So
  \<open>py_add\<close> and \<open>py_sub\<close> below are exact, where the program's sum or difference of
  two floats can differ from the exact one in the last binary digit.
\<close>

datatype pyval = PNone | PInt int | PFloat real | PStr string

fun truthy :: "pyval \<Rightarrow> bool" where
  "truthy PNone = False"
| "truthy (PInt i) = (i \<noteq> 0)"
| "truthy (PFloat r) = (r \<noteq> 0)"
| "truthy (PStr s) = (s \<noteq> [])"

fun py_add :: "pyval \<Rightarrow> pyval \<Rightarrow> error + pyval" where
  "py_add (PFloat a) (PFloat b) = Inr (PFloat (a + b))"
| "py_add (PFloat a) (PInt b) = Inr (PFloat (a + of_int b))"
| "py_add (PInt a) (PFloat b) = Inr (PFloat (of_int a + b))"
| "py_add (PInt a) (PInt b) = Inr (PInt (a + b))"
| "py_add (PStr a) (PStr b) = Inr (PStr (a @ b))"
| "py_add _ _ = Inl TypeError"

fun py_sub :: "pyval \<Rightarrow> pyval \<Rightarrow> error + pyval" where
  "py_sub (PFloat a) (PFloat b) = Inr (PFloat (a - b))"
| "py_sub (PFloat a) (PInt b) = Inr (PFloat (a - of_int b))"
| "py_sub (PInt a) (PFloat b) = Inr (PFloat (of_int a - b))"
| "py_sub (PInt a) (PInt b) = Inr (PInt (a - b))"
| "py_sub _ _ = Inl TypeError"

subsection \<open>Number conversion\<close>

definition is_digit :: "char \<Rightarrow> bool" where
  "is_digit c = (48 \<le> (of_char c :: int) \<and> (of_char c :: int) \<le> 57)"

definition digit_val :: "char \<Rightarrow> int" where
  "digit_val c = of_char c - 48"

definition digits_val :: "string \<Rightarrow> int" where
  "digits_val s = foldl (\<lambda>a c. 10 * a + digit_val c) 0 s"

definition is_digits :: "string \<Rightarrow> bool" where
  "is_digits s = (s \<noteq> [] \<and> list_all is_digit s)"

text \<open>
  An unsigned decimal literal \<^verbatim>\<open>digits.digits\<close>, the only text a field pattern can
  capture, and its value.
\<close>

definition is_decimal :: "string \<Rightarrow> bool" where
  "is_decimal s =
     (is_digits (takeWhile (\<lambda>c. c \<noteq> CHR ''.'') s) \<and>
      is_digits (drop 1 (dropWhile (\<lambda>c. c \<noteq> CHR ''.'') s)))"

definition decimal_val :: "string \<Rightarrow> real" where
  "decimal_val s =
     (let ip = takeWhile (\<lambda>c. c \<noteq> CHR ''.'') s;
          fp = drop 1 (dropWhile (\<lambda>c. c \<noteq> CHR ''.'') s)
      in of_int (digits_val ip) + of_int (digits_val fp) / 10 ^ length fp)"

text \<open>
  \<^verbatim>\<open>float(text)\<close> on a decimal literal with an optional sign. Python's \<^verbatim>\<open>float\<close>
  reads more (exponents, \<^verbatim>\<open>inf\<close>, \<^verbatim>\<open>nan\<close>, underscores, a missing integer or
  fraction part, surrounding whitespace); none of these can come out of a field pattern,
  and they are not modelled: such a text is a \<^verbatim>\<open>ValueError\<close> here.
\<close>

definition py_float :: "string \<Rightarrow> error + real" where
  "py_float s =
     (case s of
        [] \<Rightarrow> Inl ValueError
      | c # cs \<Rightarrow>
          if c = CHR ''-'' then (if is_decimal cs then Inr (- decimal_val cs) else Inl ValueError)
          else if c = CHR ''+'' then (if is_decimal cs then Inr (decimal_val cs) else Inl ValueError)
          else if is_decimal s then Inr (decimal_val s)
          else Inl ValueError)"

fun float_of :: "pyval \<Rightarrow> error + pyval" where
  "float_of PNone = Inl TypeError"
| "float_of (PInt i) = Inr (PFloat (of_int i))"
| "float_of (PFloat r) = Inr (PFloat r)"
| "float_of (PStr s) = (case py_float s of Inl e \<Rightarrow> Inl e | Inr r \<Rightarrow> Inr (PFloat r))"

text \<open>
  \<^verbatim>\<open>int(text, 16)\<close> for a text that starts with the prefix \<^verbatim>\<open>0x\<close>, as the one
  \<^verbatim>\<open>validate\<close> builds. After the prefix come hexadecimal digits; a single underscore
  may stand before each digit, none at the end. The text has no sign and no whitespace
  at its ends (it starts with \<^verbatim>\<open>0\<close> and was stripped), so those parts of \<^verbatim>\<open>int\<close>
  are left out.
\<close>

definition hex_val :: "char \<Rightarrow> int option" where
  "hex_val c =
     (let n = (of_char c :: int) in
      if 48 \<le> n \<and> n \<le> 57 then Some (n - 48)
      else if 65 \<le> n \<and> n \<le> 70 then Some (n - 55)
      else if 97 \<le> n \<and> n \<le> 102 then Some (n - 87)
      else None)"

fun hex_digits :: "string \<Rightarrow> bool \<Rightarrow> int \<Rightarrow> int option" where
  "hex_digits [] us acc = (if us then None else Some acc)"
| "hex_digits (c # cs) us acc =
     (if c = CHR ''_'' then (if us then None else hex_digits cs True acc)
      else case hex_val c of
             None \<Rightarrow> None
           | Some v \<Rightarrow> hex_digits cs False (16 * acc + v))"

definition py_int16 :: "string \<Rightarrow> error + int" where
  "py_int16 s =
     (if take 2 s = ''0x'' \<and> drop 2 s \<noteq> []
      then (case hex_digits (drop 2 s) False 0 of None \<Rightarrow> Inl ValueError | Some n \<Rightarrow> Inr n)
      else Inl ValueError)"

subsection \<open>The checksum function\<close>

text \<open>
  \<^verbatim>\<open>crc16 = crcmod.predefined.mkPredefinedCrcFun('crc16')\<close>: the CRC-16 of the crcmod
  library (polynomial 0x18005, initial value 0, bit-reversed, no final XOR), written
  bit by bit with the reversed polynomial 0xA001 on Python's integers. The register
  is only shifted to the right, so it never leaves 16 bits.
\<close>

definition crc16_shift :: "int \<Rightarrow> int" where
  "crc16_shift c = (if odd c then (c div 2) XOR 0xA001 else c div 2)"

definition crc16_byte :: "int \<Rightarrow> char \<Rightarrow> int" where
  "crc16_byte c b = (crc16_shift ^^ 8) (c XOR of_char b)"

definition crc16 :: "bytes \<Rightarrow> int" where
  "crc16 bs = foldl crc16_byte 0 bs"

section \<open>Regular expressions\<close>

text \<open>
  The patterns of the program use literals, character classes, greedy repetition of a
  class, optional non-capturing groups, the line anchor \<^verbatim>\<open>^\<close> under \<^verbatim>\<open>re.MULTILINE\<close>,
  a one-byte lookahead and one capturing group. A pattern is the list of its items; the
  matcher is the backtracking matcher of \<^verbatim>\<open>re\<close>: a greedy item first takes as much as
  it can and gives bytes back when the rest of the pattern fails.
\<close>

datatype cls = Digit | AnyButNL | OneOf "char list"

fun in_cls :: "cls \<Rightarrow> char \<Rightarrow> bool" where
  "in_cls Digit c = is_digit c"
| "in_cls AnyButNL c = (c \<noteq> LF)"
| "in_cls (OneOf cs) c = (c \<in> set cs)"

datatype item =
    Lit char
  | Cls cls
  | Star cls
  | Opt "item list"
  | BOL
  | AheadLit char
  | GrpOpen
  | GrpClose

text \<open>Group 1: not yet opened, open with the bytes taken so far, or closed.\<close>

datatype cap = NoCap | Capturing bytes | Captured bytes

fun feed :: "cap \<Rightarrow> char \<Rightarrow> cap" where
  "feed (Capturing acc) x = Capturing (acc @ [x])"
| "feed c x = c"

fun close_cap :: "cap \<Rightarrow> cap" where
  "close_cap (Capturing acc) = Captured acc"
| "close_cap c = c"

fun group1 :: "cap \<Rightarrow> bytes option" where
  "group1 (Captured b) = Some b"
| "group1 _ = None"

fun wt :: "item \<Rightarrow> nat" where
  "wt (Opt its) = Suc (sum_list (map wt its))"
| "wt _ = 1"

text \<open>
  \<open>rmatch its p s c\<close> matches the items \<open>its\<close> at the front of \<open>s\<close>, where \<open>p\<close> is the
  byte before \<open>s\<close> in the subject (\<open>None\<close> at its start); the result is the rest of
  the subject after the match, and the group.
\<close>

function rmatch :: "item list \<Rightarrow> char option \<Rightarrow> bytes \<Rightarrow> cap \<Rightarrow> (bytes \<times> cap) option" where
  "rmatch [] p s c = Some (s, c)"
| "rmatch (Lit a # r) p [] c = None"
| "rmatch (Lit a # r) p (x # xs) c = (if x = a then rmatch r (Some x) xs (feed c x) else None)"
| "rmatch (Cls k # r) p [] c = None"
| "rmatch (Cls k # r) p (x # xs) c = (if in_cls k x then rmatch r (Some x) xs (feed c x) else None)"
| "rmatch (Star k # r) p [] c = rmatch r p [] c"
| "rmatch (Star k # r) p (x # xs) c =
     (if in_cls k x
      then (case rmatch (Star k # r) (Some x) xs (feed c x) of
              Some res \<Rightarrow> Some res
            | None \<Rightarrow> rmatch r p (x # xs) c)
      else rmatch r p (x # xs) c)"
| "rmatch (Opt its # r) p s c =
     (case rmatch (its @ r) p s c of
        Some res \<Rightarrow> Some res
      | None \<Rightarrow> rmatch r p s c)"
| "rmatch (BOL # r) p s c = (if p = None \<or> p = Some LF then rmatch r p s c else None)"
| "rmatch (AheadLit a # r) p [] c = None"
| "rmatch (AheadLit a # r) p (x # xs) c = (if x = a then rmatch r p (x # xs) c else None)"
| "rmatch (GrpOpen # r) p s c = rmatch r p s (Capturing [])"
| "rmatch (GrpClose # r) p s c = rmatch r p s (close_cap c)"
  by pat_completeness auto
termination
  by (relation "measures [\<lambda>(its, p, s, c). sum_list (map wt its), \<lambda>(its, p, s, c). length s]") auto

definition lits :: "bytes \<Rightarrow> item list" where
  "lits s = map Lit s"

definition one_or_more :: "cls \<Rightarrow> item list" where
  "one_or_more k = [Cls k, Star k]"

text \<open>\<^verbatim>\<open>re.match(rx, s)\<close>: a match at the start of \<open>s\<close>.\<close>

definition re_match :: "item list \<Rightarrow> bytes \<Rightarrow> (bytes \<times> cap) option" where
  "re_match rx s = rmatch rx None s NoCap"

text \<open>\<^verbatim>\<open>re.search(rx, s, re.MULTILINE)\<close>: the first position with a match, left to right.\<close>

fun search_from :: "item list \<Rightarrow> char option \<Rightarrow> bytes \<Rightarrow> cap option" where
  "search_from rx p [] = map_option snd (rmatch rx p [] NoCap)"
| "search_from rx p (x # xs) =
     (case rmatch rx p (x # xs) NoCap of
        Some res \<Rightarrow> Some (snd res)
      | None \<Rightarrow> search_from rx (Some x) xs)"

definition re_search :: "item list \<Rightarrow> bytes \<Rightarrow> cap option" where
  "re_search rx s = search_from rx None s"

text \<open>
  \<^verbatim>\<open>pattern.finditer(s)\<close>, as the list of the values \<^verbatim>\<open>match.end()\<close> of the matches:
  the scan goes on where a match ended (one byte further after an empty match). \<open>pos\<close>
  is the offset of \<open>s\<close> in the subject.
\<close>

function finditer_from :: "item list \<Rightarrow> char option \<Rightarrow> bytes \<Rightarrow> nat \<Rightarrow> nat list" where
  "finditer_from rx p s pos =
     (case rmatch rx p s NoCap of
        None \<Rightarrow> (case s of [] \<Rightarrow> [] | x # xs \<Rightarrow> finditer_from rx (Some x) xs (Suc pos))
      | Some res \<Rightarrow>
          (let n = length s - length (fst res) in
           (pos + n) #
             (if n = 0 then (case s of [] \<Rightarrow> [] | x # xs \<Rightarrow> finditer_from rx (Some x) xs (Suc pos))
              else finditer_from rx (Some (s ! (n - 1))) (drop n s) (pos + n))))"
  by pat_completeness auto
termination
  by (relation "measure (\<lambda>(rx, p, s, pos). length s)") auto

declare finditer_from.simps [simp del]

definition finditer :: "item list \<Rightarrow> bytes \<Rightarrow> nat list" where
  "finditer rx s = finditer_from rx None s 0"

section \<open>P1Packet\<close>

text \<open>
  The field patterns of \<^verbatim>\<open>P1Packet.__init__\<close>. Fifteen of them have the shape
  \<^verbatim>\<open>^CODE\(([0-9]+\.[0-9]+)\*UNIT\)\r\n\<close> and differ in the OBIS code and the unit.
\<close>

definition obis_rx :: "bytes \<Rightarrow> bytes \<Rightarrow> item list" where
  "obis_rx code unit =
     BOL # lits code @ [Lit (CHR ''(''), GrpOpen] @ one_or_more Digit @ [Lit (CHR ''.'')] @
     one_or_more Digit @ [GrpClose] @ lits (''*'' @ unit @ '')'' @ CRLF)"

text \<open>
  The gas pattern
  \<^verbatim>\<open>^(?:0-1:24\.2\.1(?:\(\d+[SW]\))?)?\(([0-9]{6}\.[0-9]{2})(?:\*m3)?\)\r\n\<close>.
\<close>

definition gas_rx :: "item list" where
  "gas_rx =
     [BOL,
      Opt (lits ''0-1:24.2.1'' @
           [Opt ([Lit (CHR ''('')] @ one_or_more Digit @ [Cls (OneOf ''SW''), Lit (CHR '')'')])]),
      Lit (CHR ''(''), GrpOpen] @
     replicate 6 (Cls Digit) @ [Lit (CHR ''.'')] @ replicate 2 (Cls Digit) @
     [GrpClose, Opt (lits ''*m3''), Lit (CHR '')'')] @ lits CRLF"

text \<open>The pattern \<^verbatim>\<open>\r\n(?=!)\<close> of \<^verbatim>\<open>validate\<close>.\<close>

definition boundary_rx :: "item list" where
  "boundary_rx = [Lit CR, Lit LF, AheadLit (CHR ''!'')]"

record P1Packet =
  P1_datagram :: bytes
  P1_keys :: "string \<rightharpoonup> pyval"

text \<open>
  \<^verbatim>\<open>P1Packet.get\<close>: the first match of the pattern in the datagram, group 1 decoded,
  or the default.
\<close>

definition get :: "bytes \<Rightarrow> item list \<Rightarrow> pyval \<Rightarrow> error + pyval" where
  "get d regex dflt =
     (case re_search regex d of
        None \<Rightarrow> Inr dflt
      | Some c \<Rightarrow>
          (case group1 c of
             None \<Rightarrow> Inl AttributeError
           | Some b \<Rightarrow> ebind (decode_ascii b) (\<lambda>t. Inr (PStr t))))"

definition get_float :: "bytes \<Rightarrow> item list \<Rightarrow> pyval \<Rightarrow> error + pyval" where
  "get_float d regex dflt =
     ebind (get d regex PNone) (\<lambda>result.
       if \<not> truthy result then Inr dflt
       else ebind (get d regex dflt) float_of)"

text \<open>
  \<^verbatim>\<open>validate\<close>, in two parts. The \<^verbatim>\<open>for\<close> loop over the matches of the boundary
  pattern assigns \<^verbatim>\<open>packet\<close> and \<^verbatim>\<open>checksum\<close> at every match, so after it they
  hold the values of the last match, and are unbound when there was none.
\<close>

definition trailer_split :: "bytes \<Rightarrow> (bytes \<times> bytes) option" where
  "trailer_split d =
     foldl (\<lambda>v e. Some (take (e + 1) d, drop (e + 1) d)) None (finditer boundary_rx d)"

definition given_checksum :: "bytes \<Rightarrow> error + int" where
  "given_checksum checksum =
     ebind (decode_ascii checksum) (\<lambda>t. py_int16 (''0x'' @ str_strip t))"

definition validate :: "bytes \<Rightarrow> error + unit" where
  "validate d =
     (case trailer_split d of
        None \<Rightarrow> Inl UnboundLocalError
      | Some pc \<Rightarrow>
          if bytes_strip (snd pc) \<noteq> []
          then ebind (given_checksum (snd pc)) (\<lambda>given.
                 if given \<noteq> crc16 (fst pc) then Inl P1PacketError else Inr ())
          else Inr ())"

text \<open>
  \<^verbatim>\<open>keys[k] = value\<close> and \<^verbatim>\<open>keys[k]\<close>. The right-hand side is evaluated first and
  may raise.
\<close>

definition assign :: "(string \<rightharpoonup> pyval) \<Rightarrow> string \<Rightarrow> error + pyval \<Rightarrow> error + (string \<rightharpoonup> pyval)" where
  "assign keys k m = ebind m (\<lambda>v. Inr (keys(k \<mapsto> v)))"

definition getitem :: "(string \<rightharpoonup> pyval) \<Rightarrow> string \<Rightarrow> error + pyval" where
  "getitem keys k = (case keys k of None \<Rightarrow> Inl KeyError | Some v \<Rightarrow> Inr v)"

text \<open>The statements of \<^verbatim>\<open>__init__\<close> after the call of \<^verbatim>\<open>validate\<close>, in their order.\<close>

definition extract_keys :: "bytes \<Rightarrow> error + (string \<rightharpoonup> pyval)" where
  "extract_keys d =
     ebind (assign Map.empty ''+T1'' (get_float d (obis_rx ''1-0:1.8.1'' ''kWh'') PNone)) (\<lambda>keys.
     ebind (assign keys ''-T1'' (get_float d (obis_rx ''1-0:2.8.1'' ''kWh'') PNone)) (\<lambda>keys.
     ebind (assign keys ''+T2'' (get_float d (obis_rx ''1-0:1.8.2'' ''kWh'') PNone)) (\<lambda>keys.
     ebind (assign keys ''-T2'' (get_float d (obis_rx ''1-0:2.8.2'' ''kWh'') PNone)) (\<lambda>keys.
     ebind (assign keys ''+P'' (get_float d (obis_rx ''1-0:1.7.0'' ''kW'') PNone)) (\<lambda>keys.
     ebind (assign keys ''-P'' (get_float d (obis_rx ''1-0:2.7.0'' ''kW'') PNone)) (\<lambda>keys.
     ebind (assign keys ''V_1'' (get_float d (obis_rx ''1-0:32.7.0'' ''V'') PNone)) (\<lambda>keys.
     ebind (assign keys ''V_2'' (get_float d (obis_rx ''1-0:52.7.0'' ''V'') PNone)) (\<lambda>keys.
     ebind (assign keys ''V_3'' (get_float d (obis_rx ''1-0:72.7.0'' ''V'') PNone)) (\<lambda>keys.
     ebind (assign keys ''+P_1'' (get_float d (obis_rx ''1-0:21.7.0'' ''kW'') PNone)) (\<lambda>keys.
     ebind (assign keys ''+P_2'' (get_float d (obis_rx ''1-0:41.7.0'' ''kW'') PNone)) (\<lambda>keys.
     ebind (assign keys ''+P_3'' (get_float d (obis_rx ''1-0:61.7.0'' ''kW'') PNone)) (\<lambda>keys.
     ebind (assign keys ''-P_1'' (get_float d (obis_rx ''1-0:22.7.0'' ''kW'') PNone)) (\<lambda>keys.
     ebind (assign keys ''-P_2'' (get_float d (obis_rx ''1-0:42.7.0'' ''kW'') PNone)) (\<lambda>keys.
     ebind (assign keys ''-P_3'' (get_float d (obis_rx ''1-0:62.7.0'' ''kW'') PNone)) (\<lambda>keys.
     ebind (assign keys ''+T''
              (ebind (getitem keys ''+T1'') (\<lambda>a. ebind (getitem keys ''+T2'') (py_add a)))) (\<lambda>keys.
     ebind (assign keys ''-T''
              (ebind (getitem keys ''-T1'') (\<lambda>a. ebind (getitem keys ''-T2'') (py_add a)))) (\<lambda>keys.
     ebind (assign keys ''P''
              (ebind (getitem keys ''+P'') (\<lambda>a. ebind (getitem keys ''-P'') (py_sub a)))) (\<lambda>keys.
     assign keys ''G'' (get_float d gas_rx (PInt 0))))))))))))))))))))"

text \<open>\<^verbatim>\<open>P1Packet(datagram)\<close>: the constructor, which returns the packet or raises.\<close>

definition P1Packet_init :: "bytes \<Rightarrow> error + P1Packet" where
  "P1Packet_init d =
     ebind (validate d) (\<lambda>u.
     ebind (extract_keys d) (\<lambda>keys.
     Inr \<lparr>P1_datagram = d, P1_keys = keys\<rparr>))"

section \<open>SmartMeter.read_one_packet\<close>

text \<open>
  The serial port is the sequence of the results of \<^verbatim>\<open>self.serial.readline()\<close>: the
  \<open>i\<close>-th call returns the bytes \<open>l\<close> when \<open>src i = Some l\<close> (the empty bytes on a
  timeout), and raises when \<open>src i = None\<close>. The local variables of the loop are the
  fields of \<open>reader\<close>; \<open>lines_read\<close> counts the calls so far. The local \<^verbatim>\<open>max_lines\<close>
  is assigned and never read.
\<close>

record reader =
  datagram :: bytes
  lines_read :: nat
  startFound :: bool
  endFound :: bool

definition max_lines :: nat where
  "max_lines = 35"

definition header_rx :: "item list" where
  "header_rx = [Star AnyButNL, AheadLit (CHR ''/'')]"

definition trailer_rx :: "item list" where
  "trailer_rx = [AheadLit (CHR ''!'')]"

definition reader_init :: reader where
  "reader_init = \<lparr>datagram = [], lines_read = 0, startFound = False, endFound = False\<rparr>"

text \<open>The body of the \<^verbatim>\<open>while\<close> loop once \<^verbatim>\<open>readline\<close> has returned \<open>line\<close>.\<close>

definition loop_body :: "bytes \<Rightarrow> reader \<Rightarrow> reader" where
  "loop_body line st =
     (let st1 = st\<lparr>lines_read := lines_read st + 1\<rparr> in
      if re_match header_rx line \<noteq> None
      then st1\<lparr>startFound := True, endFound := False, datagram := bytes_lstrip line\<rparr>
      else if re_match trailer_rx line \<noteq> None
      then st1\<lparr>endFound := True, datagram := datagram st1 @ line\<rparr>
      else st1\<lparr>datagram := datagram st1 @ line\<rparr>)"

text \<open>
  The loop. It has no bound, so it is a partial function: \<open>None\<close> is a loop that never
  ends, \<open>Some (Inl e)\<close> a raised exception, \<open>Some (Inr d)\<close> the datagram it leaves.
\<close>

partial_function (option) read_loop :: "(nat \<Rightarrow> bytes option) \<Rightarrow> reader \<Rightarrow> (error + bytes) option" where
  "read_loop src st =
     (if \<not> startFound st \<or> \<not> endFound st
      then (case src (lines_read st) of
              None \<Rightarrow> Some (Inl SmartMeterError)
            | Some line \<Rightarrow> read_loop src (loop_body line st))
      else Some (Inr (datagram st)))"

declare read_loop.simps [code]

definition read_one_packet :: "(nat \<Rightarrow> bytes option) \<Rightarrow> (error + P1Packet) option" where
  "read_one_packet src = map_option (\<lambda>r. ebind r P1Packet_init) (read_loop src reader_init)"

text \<open>A port that delivers the given lines and then only timeouts.\<close>

definition lines_then_silence :: "bytes list \<Rightarrow> nat \<Rightarrow> bytes option" where
  "lines_then_silence ls i = (if i < length ls then Some (ls ! i) else Some [])"

section \<open>Notions used to state the properties\<close>

text \<open>
  The offsets just after each \<^verbatim>\<open>\r\n\<close> that stands before a \<^verbatim>\<open>!\<close>, read off the
  bytes directly; \<open>finditer_boundary\<close> below shows that these are the matches
  \<^verbatim>\<open>validate\<close> iterates over.
\<close>

fun bends :: "bytes \<Rightarrow> nat \<Rightarrow> nat list" where
  "bends (c1 # c2 # c3 # t) pos =
     (if c1 = CR \<and> c2 = LF \<and> c3 = CHR ''!'' then (pos + 2) # bends (c3 # t) (pos + 2)
      else bends (c2 # c3 # t) (Suc pos))"
| "bends s pos = []"

text \<open>The value of a run of hexadecimal digits, most significant digit first.\<close>

definition is_hex :: "char \<Rightarrow> bool" where
  "is_hex c = (hex_val c \<noteq> None)"

definition hex_number :: "string \<Rightarrow> int" where
  "hex_number s = foldl (\<lambda>a c. 16 * a + (case hex_val c of None \<Rightarrow> 0 | Some v \<Rightarrow> v)) 0 s"

text \<open>
  Example telegrams. \<open>operand_lines\<close> holds the six lines of the energy totals and the
  power; \<open>frame_bare\<close> ends in a trailer without checksum digits.
\<close>

definition operand_lines :: bytes where
  "operand_lines =
     ''1-0:1.8.1(000123.456*kWh)'' @ CRLF @ ''1-0:2.8.1(000010.000*kWh)'' @ CRLF @
     ''1-0:1.8.2(000001.000*kWh)'' @ CRLF @ ''1-0:2.8.2(000002.500*kWh)'' @ CRLF @
     ''1-0:1.7.0(00.100*kW)'' @ CRLF @ ''1-0:2.7.0(00.350*kW)'' @ CRLF"

definition frame_bare :: bytes where
  "frame_bare = ''/ISK5'' @ CRLF @ operand_lines @ ''!'' @ CRLF"

text \<open>
  A port that delivers \<open>n\<close> data lines, then a header line and a bare trailer line.
\<close>

definition body_line :: bytes where
  "body_line = ''0-0:96.1.1(4B384547303034)'' @ CRLF"

definition unbounded_port :: "nat \<Rightarrow> nat \<Rightarrow> bytes option" where
  "unbounded_port n = lines_then_silence (replicate n body_line @ [''/ISK5'' @ CRLF, ''!'' @ CRLF])"

text \<open>
  For the capture of the field patterns: an item that does not open the group, a
  group state that matching such items leaves alone, and a group that holds an
  unsigned decimal literal.
\<close>

fun no_open :: "item \<Rightarrow> bool" where
  "no_open GrpOpen = False"
| "no_open (Opt its) = list_all no_open its"
| "no_open _ = True"

fun settled :: "cap \<Rightarrow> bool" where
  "settled (Capturing acc) = False"
| "settled _ = True"

definition decimal_cap :: "cap \<Rightarrow> bool" where
  "decimal_cap c = (case c of Captured t \<Rightarrow> is_decimal t | _ \<Rightarrow> False)"

text \<open>
  The fields \<^verbatim>\<open>__init__\<close> reads with \<^verbatim>\<open>get_float\<close>, each with its pattern and its
  default (lines 94 to 113 and 119 of the program), and the six of them that the
  derived fields are computed from.
\<close>

definition field_table :: "(string \<times> item list \<times> pyval) list" where
  "field_table =
     [(''+T1'', obis_rx ''1-0:1.8.1'' ''kWh'', PNone),
      (''-T1'', obis_rx ''1-0:2.8.1'' ''kWh'', PNone),
      (''+T2'', obis_rx ''1-0:1.8.2'' ''kWh'', PNone),
      (''-T2'', obis_rx ''1-0:2.8.2'' ''kWh'', PNone),
      (''+P'', obis_rx ''1-0:1.7.0'' ''kW'', PNone),
      (''-P'', obis_rx ''1-0:2.7.0'' ''kW'', PNone),
      (''V_1'', obis_rx ''1-0:32.7.0'' ''V'', PNone),
      (''V_2'', obis_rx ''1-0:52.7.0'' ''V'', PNone),
      (''V_3'', obis_rx ''1-0:72.7.0'' ''V'', PNone),
      (''+P_1'', obis_rx ''1-0:21.7.0'' ''kW'', PNone),
      (''+P_2'', obis_rx ''1-0:41.7.0'' ''kW'', PNone),
      (''+P_3'', obis_rx ''1-0:61.7.0'' ''kW'', PNone),
      (''-P_1'', obis_rx ''1-0:22.7.0'' ''kW'', PNone),
      (''-P_2'', obis_rx ''1-0:42.7.0'' ''kW'', PNone),
      (''-P_3'', obis_rx ''1-0:62.7.0'' ''kW'', PNone),
      (''G'', gas_rx, PInt 0)]"

definition operand_fields :: "string list" where
  "operand_fields = [''+T1'', ''-T1'', ''+T2'', ''-T2'', ''+P'', ''-P'']"

fun nonneg_val :: "pyval \<Rightarrow> bool" where
  "nonneg_val PNone = True"
| "nonneg_val (PInt i) = (0 \<le> i)"
| "nonneg_val (PFloat r) = (0 \<le> r)"
| "nonneg_val (PStr s) = False"

text \<open>
  Telegrams with their checksum: the six operand lines alone, the same with a bare gas
  line, and the example of the specification, which lacks four of the operands.
\<close>

definition frame_signed :: bytes where
  "frame_signed = ''/ISK5'' @ CRLF @ operand_lines @ ''!96AF'' @ CRLF"

definition frame_gas :: bytes where
  "frame_gas = ''/ISK5'' @ CRLF @ operand_lines @ ''(123456.78)'' @ CRLF @ ''!7EC1'' @ CRLF"

definition frame_spec_example :: bytes where
  "frame_spec_example =
     ''/ISK5'' @ CRLF @ ''1-0:1.8.1(000123.456*kWh)'' @ CRLF @
     ''1-0:2.8.1(000010.000*kWh)'' @ CRLF @ ''!518D'' @ CRLF"

definition telegram_body :: bytes where
  "telegram_body =
     ''/ISK5'' @ CRLF @
     ''1-0:1.8.1(000123.456*kWh)'' @ CRLF @ ''1-0:2.8.1(000010.000*kWh)'' @ CRLF @
     ''1-0:1.8.2(000001.000*kWh)'' @ CRLF @ ''1-0:2.8.2(000002.500*kWh)'' @ CRLF @
     ''1-0:1.7.0(00.100*kW)'' @ CRLF @ ''1-0:2.7.0(00.350*kW)''"

section \<open>Properties\<close>

subsection \<open>Sequencing of results\<close>

lemma ebind_Inl [simp]: "ebind (Inl e) f = Inl e"
  by (simp add: ebind_def)

lemma ebind_Inr [simp]: "ebind (Inr x) f = f x"
  by (simp add: ebind_def)

lemma ebind_eq_Inr: "(ebind m f = Inr y) = (\<exists>x. m = Inr x \<and> f x = Inr y)"
  by (cases m) simp_all

subsection \<open>The trailer boundary\<close>

text \<open>
  The matches of \<^verbatim>\<open>\r\n(?=!)\<close> are the places where the three bytes stand, so the
  last match is the last such place in the datagram.
\<close>

lemma foldl_last_assign:
  "foldl (\<lambda>v e. Some (f e)) None xs = (if xs = [] then None else Some (f (last xs)))"
  by (induction xs rule: rev_induct) simp_all

lemma rmatch_boundary:
  "rmatch boundary_rx p s c =
     (case s of
        c1 # c2 # c3 # t \<Rightarrow>
          if c1 = CR \<and> c2 = LF \<and> c3 = CHR ''!'' then Some (c3 # t, feed (feed c c1) c2) else None
      | _ \<Rightarrow> None)"
  by (auto simp: boundary_rx_def split: list.splits)

lemma finditer_boundary: "finditer_from boundary_rx p s pos = bends s pos"
proof (induction s pos arbitrary: p rule: bends.induct)
  case (1 c1 c2 c3 t pos)
  show ?case
  proof (cases "c1 = CR \<and> c2 = LF \<and> c3 = CHR ''!''")
    case True
    then show ?thesis
      using "1.IH"(1) [OF True]
      by (subst finditer_from.simps) (simp add: rmatch_boundary)
  next
    case False
    then show ?thesis
      using "1.IH"(2) [OF False]
      by (subst finditer_from.simps) (auto simp add: rmatch_boundary)
  qed
qed ((subst finditer_from.simps, simp add: rmatch_boundary)+)

lemma trailer_split_bends:
  "trailer_split d = (if bends d 0 = [] then None else Some (take (last (bends d 0) + 1) d, drop (last (bends d 0) + 1) d))"
  by (simp add: trailer_split_def finditer_def finditer_boundary foldl_last_assign)

lemma bends_no_boundary:
  "\<not> (\<exists>a b. s = a @ CRLF @ ''!'' @ b) \<Longrightarrow> bends s pos = []"
proof (induction s pos rule: bends.induct)
  case (1 c1 c2 c3 t pos)
  have a: "\<not> (c1 = CR \<and> c2 = LF \<and> c3 = CHR ''!'')"
    using "1.prems" by (auto simp: CRLF_def)
  have "\<not> (\<exists>a b. c2 # c3 # t = a @ CRLF @ ''!'' @ b)"
  proof
    assume "\<exists>a b. c2 # c3 # t = a @ CRLF @ ''!'' @ b"
    then obtain a b where "c2 # c3 # t = a @ CRLF @ ''!'' @ b" by blast
    then have "c1 # c2 # c3 # t = (c1 # a) @ CRLF @ ''!'' @ b" by simp
    with "1.prems" show False by blast
  qed
  with a "1.IH"(2) show ?case by simp
qed simp_all

lemma bytes_neq [simp]:
  "CR \<noteq> LF" "LF \<noteq> CR" "CR \<noteq> CHR ''!''" "CHR ''!'' \<noteq> CR" "LF \<noteq> CHR ''!''" "CHR ''!'' \<noteq> LF"
  by (simp_all add: CR_def LF_def)

lemma bends_last:
  "bends (a @ CR # LF # CHR ''!'' # t) pos \<noteq> [] \<and>
   last (bends (a @ CR # LF # CHR ''!'' # t) pos) =
     (if bends (CHR ''!'' # t) (pos + length a + 2) = [] then pos + length a + 2
      else last (bends (CHR ''!'' # t) (pos + length a + 2)))"
proof (induction "length a" arbitrary: a pos rule: less_induct)
  case less
  let ?w = "CR # LF # CHR ''!'' # t"
  show ?case
  proof (cases a)
    case Nil
    then show ?thesis by simp
  next
    case (Cons x a1)
    note a = Cons
    show ?thesis
    proof (cases a1)
      case Nil
      have "bends (a @ ?w) pos = bends ?w (Suc pos)"
        using a Nil by simp
      with less.hyps [of "[]" "Suc pos"] a Nil show ?thesis
        by simp
    next
      case (Cons y a2)
      note a1 = Cons
      obtain z rest where w: "a2 @ ?w = z # rest"
        by (cases a2) auto
      have unf: "bends (a @ ?w) pos =
          (if x = CR \<and> y = LF \<and> z = CHR ''!'' then (pos + 2) # bends (a2 @ ?w) (pos + 2)
           else bends (a1 @ ?w) (Suc pos))"
        using a a1 w by simp
      show ?thesis
      proof (cases "x = CR \<and> y = LF \<and> z = CHR ''!''")
        case True
        have len: "length a2 < length a" using a a1 by simp
        have eq: "pos + 2 + length a2 + 2 = pos + length a + 2" using a a1 by simp
        from less.hyps [OF len, of "pos + 2"] unf True show ?thesis
          by (simp only: eq if_True last.simps list.simps split: if_splits) auto
      next
        case False
        have len: "length a1 < length a" using a by simp
        have eq: "Suc pos + length a1 + 2 = pos + length a + 2" using a by simp
        from less.hyps [OF len, of "Suc pos"] unf False show ?thesis
          by (simp only: eq) simp
      qed
    qed
  qed
qed

lemma bends_no_CR: "CR \<notin> set t \<Longrightarrow> bends (t @ [CR, LF]) pos = []"
proof (induction t arbitrary: pos)
  case Nil
  then show ?case by simp
next
  case (Cons x t)
  obtain y z rest where w: "t @ [CR, LF] = y # z # rest"
    by (cases t; cases "tl t") auto
  have "bends (x # t @ [CR, LF]) pos = bends (t @ [CR, LF]) (Suc pos)"
    using Cons.prems by (auto simp add: w)
  with Cons show ?case by simp
qed

subsection \<open>Reading the checksum digits\<close>

lemma is_hex_not_us: "is_hex c \<Longrightarrow> c \<noteq> CHR ''_''"
  by (auto simp: is_hex_def hex_val_def)

lemma hex_digits_all:
  "list_all is_hex hs \<Longrightarrow> hs \<noteq> [] \<Longrightarrow>
   hex_digits hs us acc = Some (foldl (\<lambda>a c. 16 * a + (case hex_val c of None \<Rightarrow> 0 | Some v \<Rightarrow> v)) acc hs)"
proof (induction hs arbitrary: us acc)
  case Nil
  then show ?case by simp
next
  case (Cons c hs)
  then obtain v where v: "hex_val c = Some v" by (auto simp: is_hex_def)
  have nu: "c \<noteq> CHR ''_''" using Cons.prems by (simp add: is_hex_not_us)
  show ?case
  proof (cases hs)
    case Nil
    then show ?thesis using v nu by simp
  next
    case (Cons d ds)
    then show ?thesis using v nu Cons.IH Cons.prems by simp
  qed
qed

lemma is_hex_not_space: "is_hex c \<Longrightarrow> \<not> is_sspace c \<and> \<not> is_bspace c \<and> (of_char c :: int) < 128"
  by (auto simp: is_hex_def hex_val_def is_sspace_def is_bspace_def Let_def split: if_splits)

lemma space_CR_LF [simp]: "is_bspace CR" "is_bspace LF" "is_sspace CR" "is_sspace LF"
  by (simp_all add: is_sspace_def is_bspace_def CR_def LF_def)

lemma strip_hex:
  assumes "list_all is_hex hs" "hs \<noteq> []"
  shows "str_strip (hs @ CRLF) = hs" "bytes_strip (hs @ CRLF) = hs"
proof -
  from assms obtain h hs' where h: "hs = h # hs'" by (cases hs) auto
  from assms obtain l hs'' where l: "hs = hs'' @ [l]" by (cases hs rule: rev_cases) auto
  from assms(1) h have hh1: "is_hex h" by simp
  from assms(1) have "list_all is_hex (hs'' @ [l])" by (simp only: l [symmetric])
  then have hh2: "is_hex l" by simp
  note hh = hh1 hh2
  have a: "dropWhile is_sspace (hs @ CRLF) = hs @ CRLF" "dropWhile is_bspace (hs @ CRLF) = hs @ CRLF"
    using hh(1) by (simp_all add: h is_hex_not_space)
  have b: "dropWhile is_sspace (rev CRLF @ rev hs) = rev hs" "dropWhile is_bspace (rev CRLF @ rev hs) = rev hs"
    using hh(2) by (simp_all add: l CRLF_def is_hex_not_space)
  show "str_strip (hs @ CRLF) = hs" by (simp add: str_strip_def a b)
  show "bytes_strip (hs @ CRLF) = hs" by (simp add: bytes_strip_def a b)
qed

lemma given_checksum_hex:
  assumes "list_all is_hex hs" "hs \<noteq> []"
  shows "given_checksum (hs @ CRLF) = Inr (hex_number hs)"
proof -
  have "list_all (\<lambda>c. (of_char c :: int) < 128) (hs @ CRLF)"
    using assms(1) by (auto simp: list_all_iff is_hex_not_space CRLF_def CR_def LF_def)
  then have d: "decode_ascii (hs @ CRLF) = Inr (hs @ CRLF)"
    by (simp add: decode_ascii_def)
  show ?thesis
    using assms by (simp add: given_checksum_def d strip_hex py_int16_def hex_digits_all hex_number_def)
qed

lemma is_hex_not_CR: "is_hex c \<Longrightarrow> c \<noteq> CR"
  by (auto simp: is_hex_def hex_val_def CR_def)

lemma trailer_split_wire:
  assumes "list_all is_hex hs"
  shows "trailer_split (body @ CRLF @ ''!'' @ hs @ CRLF) = Some (body @ CRLF @ ''!'', hs @ CRLF)"
proof -
  have "CR \<notin> set (CHR ''!'' # hs)"
    using assms by (auto simp: list_all_iff dest: is_hex_not_CR)
  then have e: "bends (CHR ''!'' # hs @ [CR, LF]) q = []" for q
    using bends_no_CR [of "CHR ''!'' # hs" q] by simp
  let ?d = "body @ CR # LF # CHR ''!'' # (hs @ [CR, LF])"
  have eq: "body @ CRLF @ ''!'' @ hs @ CRLF = ?d"
    by (simp add: CRLF_def)
  have ne: "bends ?d 0 \<noteq> []" and la: "last (bends ?d 0) = length body + 2"
    using bends_last [of body "hs @ [CR, LF]" 0] by (simp_all add: e)
  have "trailer_split ?d = Some (take (length body + 3) ?d, drop (length body + 3) ?d)"
    by (simp only: trailer_split_bends ne la if_False) simp
  also have "take (length body + 3) ?d = body @ CRLF @ ''!''"
    by (simp add: CRLF_def)
  also have "drop (length body + 3) ?d = hs @ CRLF"
    by (simp add: CRLF_def)
  finally show ?thesis by (simp only: eq)
qed

subsection \<open>Two small evaluations\<close>

lemma crc16_check_value: "crc16 ''123456789'' = 0xBB3D"
  by code_simp

lemma crc16_small: "crc16 (''/H'' @ CRLF @ ''!'') = 7573"
  by code_simp

lemma extract_frame_bare:
  "(case extract_keys frame_bare of
      Inl e \<Rightarrow> False
    | Inr k \<Rightarrow>
        k ''+T'' = Some (PFloat (124456 / 1000)) \<and> k ''-T'' = Some (PFloat (125 / 10)) \<and>
        k ''P'' = Some (PFloat (- (1 / 4))) \<and> k ''V_1'' = Some PNone \<and> k ''G'' = Some (PInt 0))"
  by code_simp

subsection \<open>Header lines and runs of the reading loop\<close>

lemma rmatch_header:
  "(rmatch header_rx p s c \<noteq> None) = (CHR ''/'' \<in> set (takeWhile (\<lambda>x. x \<noteq> LF) s))"
proof (induction s arbitrary: p c)
  case Nil
  show ?case by (simp add: header_rx_def)
next
  case (Cons x xs)
  have sl: "CHR ''/'' \<noteq> LF" by (simp add: LF_def)
  from Cons [of "Some x" "feed c x"] sl show ?case
    by (auto simp: header_rx_def split: option.splits)
qed

lemma header_line_iff:
  "(re_match header_rx line \<noteq> None) = (CHR ''/'' \<in> set (takeWhile (\<lambda>x. x \<noteq> LF) line))"
  unfolding re_match_def by (rule rmatch_header)

lemma readline_takeWhile:
  assumes "c \<in> set line" and "LF \<notin> set (butlast line)" and "c \<noteq> LF"
  shows "c \<in> set (takeWhile (\<lambda>x. x \<noteq> LF) line)"
proof (cases line rule: rev_cases)
  case Nil
  with assms show ?thesis by simp
next
  case (snoc xs y)
  from assms(2) snoc have "LF \<notin> set xs" by simp
  then have "takeWhile (\<lambda>x. x \<noteq> LF) (xs @ [y]) = xs @ takeWhile (\<lambda>x. x \<noteq> LF) [y]"
    by (intro takeWhile_append2) auto
  then have "takeWhile (\<lambda>x. x \<noteq> LF) line = xs @ takeWhile (\<lambda>x. x \<noteq> LF) [y]"
    by (simp only: snoc)
  with assms(1,3) snoc show ?thesis by auto
qed

lemma loop_body_header:
  assumes "re_match header_rx line \<noteq> None"
  shows "loop_body line st =
    \<lparr>datagram = bytes_lstrip line, lines_read = lines_read st + 1, startFound = True, endFound = False\<rparr>"
  using assms by (simp add: loop_body_def Let_def)

lemma step1: "loop_body (''noise'' @ CRLF) reader_init =
    \<lparr>datagram = ''noise'' @ CRLF, lines_read = 1, startFound = False, endFound = False\<rparr>"
  by code_simp

lemma step2: "loop_body (''/HEADER'' @ CRLF) \<lparr>datagram = ''noise'' @ CRLF, lines_read = 1, startFound = False, endFound = False\<rparr> =
    \<lparr>datagram = ''/HEADER'' @ CRLF, lines_read = 2, startFound = True, endFound = False\<rparr>"
  by code_simp

lemma step3: "loop_body (''!ABCD'' @ CRLF) \<lparr>datagram = ''/HEADER'' @ CRLF, lines_read = 2, startFound = True, endFound = False\<rparr> =
    \<lparr>datagram = ''/HEADER'' @ CRLF @ ''!ABCD'' @ CRLF, lines_read = 3, startFound = True, endFound = True\<rparr>"
  by code_simp

lemma noise_example:
  assumes "src 0 = Some (''noise'' @ CRLF)" and "src 1 = Some (''/HEADER'' @ CRLF)"
    and "src 2 = Some (''!ABCD'' @ CRLF)"
  shows "read_loop src reader_init = Some (Inr (''/HEADER'' @ CRLF @ ''!ABCD'' @ CRLF))"
proof -
  from assms(2) have a1: "src (Suc 0) = Some (''/HEADER'' @ CRLF)" by simp
  have "read_loop src reader_init = read_loop src (loop_body (''noise'' @ CRLF) reader_init)"
    by (subst read_loop.simps) (simp add: reader_init_def assms)
  also have "\<dots> = read_loop src (loop_body (''/HEADER'' @ CRLF)
      \<lparr>datagram = ''noise'' @ CRLF, lines_read = 1, startFound = False, endFound = False\<rparr>)"
    unfolding step1 by (subst read_loop.simps) (simp add: a1)
  also have "\<dots> = read_loop src (loop_body (''!ABCD'' @ CRLF)
      \<lparr>datagram = ''/HEADER'' @ CRLF, lines_read = 2, startFound = True, endFound = False\<rparr>)"
    unfolding step2 by (subst read_loop.simps) (simp add: assms)
  also have "\<dots> = Some (Inr (''/HEADER'' @ CRLF @ ''!ABCD'' @ CRLF))"
    unfolding step3 by (subst read_loop.simps) simp
  finally show ?thesis .
qed

lemma body_line_plain: "re_match header_rx body_line = None" "re_match trailer_rx body_line = None"
  by code_simp+

lemma loop_body_plain:
  "loop_body body_line st = st\<lparr>lines_read := lines_read st + 1, datagram := datagram st @ body_line\<rparr>"
  by (simp add: loop_body_def body_line_plain Let_def)

lemma last_two_steps:
  "loop_body (''!'' @ CRLF) (loop_body (''/ISK5'' @ CRLF) st) =
     \<lparr>datagram = ''/ISK5'' @ CRLF @ ''!'' @ CRLF, lines_read = lines_read st + 2,
      startFound = True, endFound = True\<rparr>"
proof -
  have h: "re_match header_rx (''/ISK5'' @ CRLF) \<noteq> None" by code_simp
  have t: "re_match header_rx (''!'' @ CRLF) = None" "re_match trailer_rx (''!'' @ CRLF) \<noteq> None"
    by code_simp+
  have l: "bytes_lstrip (''/ISK5'' @ CRLF) = ''/ISK5'' @ CRLF" by code_simp
  show ?thesis
    using h t by (cases st) (simp add: loop_body_def Let_def l [simplified])
qed

lemma unbounded_port_nth:
  "k < n \<Longrightarrow> unbounded_port n k = Some body_line"
  "unbounded_port n n = Some (''/ISK5'' @ CRLF)"
  "unbounded_port n (Suc n) = Some (''!'' @ CRLF)"
  by (simp_all add: unbounded_port_def lines_then_silence_def nth_append)

lemma read_loop_body_lines:
  assumes "\<not> startFound st" and "lines_read st + m = n"
  shows "read_loop (unbounded_port n) st = Some (Inr (''/ISK5'' @ CRLF @ ''!'' @ CRLF))"
  using assms
proof (induction m arbitrary: st)
  case 0
  then have k: "lines_read st = n" by simp
  have "read_loop (unbounded_port n) st =
      read_loop (unbounded_port n) (loop_body (''/ISK5'' @ CRLF) st)"
    using 0 by (subst read_loop.simps) (simp add: k unbounded_port_nth)
  also have "\<dots> = read_loop (unbounded_port n) (loop_body (''!'' @ CRLF) (loop_body (''/ISK5'' @ CRLF) st))"
  proof -
    have "re_match header_rx (''/ISK5'' @ CRLF) \<noteq> None" by code_simp
    then have s: "loop_body (''/ISK5'' @ CRLF) st =
      \<lparr>datagram = bytes_lstrip (''/ISK5'' @ CRLF), lines_read = Suc n, startFound = True, endFound = False\<rparr>"
      by (simp add: loop_body_def Let_def k)
    show ?thesis
      unfolding s by (subst read_loop.simps) (simp add: unbounded_port_nth)
  qed
  also have "\<dots> = Some (Inr (''/ISK5'' @ CRLF @ ''!'' @ CRLF))"
    unfolding last_two_steps by (subst read_loop.simps) simp
  finally show ?case .
next
  case (Suc m)
  then have k: "lines_read st < n" by simp
  have "read_loop (unbounded_port n) st = read_loop (unbounded_port n) (loop_body body_line st)"
    using Suc.prems(1) by (subst read_loop.simps) (simp add: unbounded_port_nth k)
  also have "\<dots> = Some (Inr (''/ISK5'' @ CRLF @ ''!'' @ CRLF))"
    using Suc.prems by (intro Suc.IH) (simp_all add: loop_body_plain)
  finally show ?case .
qed

subsection \<open>What the field patterns capture\<close>

text \<open>
  Every match of a field pattern leaves an unsigned decimal literal in group 1: the
  items before the group do not open it, the items of the group take digits, a point
  and digits, and the items after it leave the closed group alone.
\<close>

lemma settled_feed [simp]: "settled c \<Longrightarrow> feed c x = c"
  by (cases c) simp_all

lemma settled_close [simp]: "settled c \<Longrightarrow> close_cap c = c"
  by (cases c) simp_all

lemma rmatch_settled:
  "list_all no_open r \<Longrightarrow> settled c \<Longrightarrow> rmatch r p s c = Some res \<Longrightarrow> snd res = c"
proof (induction r p s c rule: rmatch.induct)
  case (8 its r p s c)
  then show ?case by (auto split: option.splits)
qed (auto split: if_splits option.splits)

lemma rmatch_star_digit:
  "rmatch (Star Digit # r) p s (Capturing acc) = Some res \<Longrightarrow>
   \<exists>ds p' s'. list_all is_digit ds \<and> rmatch r p' s' (Capturing (acc @ ds)) = Some res"
proof (induction s arbitrary: p acc)
  case Nil
  then have "rmatch r p [] (Capturing (acc @ [])) = Some res" by simp
  then show ?case by (intro exI [of _ "[]"] exI conjI) simp_all
next
  case (Cons x xs)
  show ?case
  proof (cases "is_digit x \<and> rmatch (Star Digit # r) (Some x) xs (Capturing (acc @ [x])) \<noteq> None")
    case True
    then have "rmatch (Star Digit # r) (Some x) xs (Capturing (acc @ [x])) = Some res"
      using Cons.prems by (auto split: option.splits)
    from Cons.IH [OF this] obtain ds p' s' where
      "list_all is_digit ds" "rmatch r p' s' (Capturing ((acc @ [x]) @ ds)) = Some res" by blast
    with True show ?thesis
      by (intro exI [of _ "x # ds"] exI [of _ p'] exI [of _ s']) simp
  next
    case False
    then have "rmatch r p (x # xs) (Capturing (acc @ [])) = Some res"
      using Cons.prems by (auto split: option.splits if_splits)
    then show ?thesis by (intro exI [of _ "[]"] exI conjI) simp_all
  qed
qed

lemma rmatch_to_open:
  "rmatch its p s c = Some res \<Longrightarrow> its = pre @ GrpOpen # rest \<Longrightarrow> list_all no_open pre \<Longrightarrow>
   \<exists>p' s'. rmatch rest p' s' (Capturing []) = Some res"
proof (induction its p s c arbitrary: pre rule: rmatch.induct)
  case (7 k r p x xs c)
  from "7.prems"(2,3) obtain pre' where pre: "pre = Star k # pre'" and r: "r = pre' @ GrpOpen # rest"
    by (cases pre) auto
  from "7.prems"(3) pre have no: "list_all no_open pre'" by simp
  show ?case
  proof (cases "in_cls k x")
    case True
    note inc = True
    show ?thesis
    proof (cases "rmatch (Star k # r) (Some x) xs (feed c x)")
      case None
      with "7.prems"(1) inc have "rmatch r p (x # xs) c = Some res" by simp
      from "7.IH"(2) [OF inc None this r no] show ?thesis .
    next
      case (Some res')
      with "7.prems"(1) inc have "rmatch (Star k # r) (Some x) xs (feed c x) = Some res" by simp
      from "7.IH"(1) [OF inc this "7.prems"(2) "7.prems"(3)] show ?thesis .
    qed
  next
    case False
    with "7.prems"(1) have "rmatch r p (x # xs) c = Some res" by simp
    from "7.IH"(3) [OF False this r no] show ?thesis .
  qed
next
  case (8 its r p s c)
  from "8.prems"(2,3) obtain pre' where pre: "pre = Opt its # pre'" and r: "r = pre' @ GrpOpen # rest"
    by (cases pre) auto
  from "8.prems"(3) pre have no: "list_all no_open (its @ pre')" "list_all no_open pre'" by simp_all
  show ?case
  proof (cases "rmatch (its @ r) p s c")
    case None
    with "8.prems"(1) have "rmatch r p s c = Some res" by simp
    from "8.IH"(2) [OF None this r no(2)] show ?thesis .
  next
    case (Some res')
    with "8.prems"(1) have m: "rmatch (its @ r) p s c = Some res" by simp
    have e: "its @ r = (its @ pre') @ GrpOpen # rest" using r by simp
    from "8.IH"(1) [OF m e no(1)] show ?thesis .
  qed
qed (auto simp: Cons_eq_append_conv split: if_splits, blast)

lemma no_open_lits [simp]: "list_all no_open (lits s)"
  by (induction s) (simp_all add: lits_def)

lemma is_digit_not_dot: "is_digit x \<Longrightarrow> x \<noteq> CHR ''.''"
  by (auto simp: is_digit_def)

lemma is_decimal_parts:
  assumes "list_all is_digit a" "a \<noteq> []" "list_all is_digit b" "b \<noteq> []"
  shows "is_decimal (a @ CHR ''.'' # b)"
proof -
  have n: "\<forall>x\<in>set a. x \<noteq> CHR ''.''"
    using assms(1) by (auto simp: list_all_iff dest: is_digit_not_dot)
  then have "takeWhile (\<lambda>c. c \<noteq> CHR ''.'') (a @ CHR ''.'' # b) = a"
    by (simp add: takeWhile_append2)
  moreover from n have "dropWhile (\<lambda>c. c \<noteq> CHR ''.'') (a @ CHR ''.'' # b) = CHR ''.'' # b"
    by (simp add: dropWhile_append2)
  ultimately show ?thesis
    using assms by (simp add: is_decimal_def is_digits_def)
qed

lemma rmatch_number:
  assumes "rmatch (one_or_more Digit @ [Lit (CHR ''.'')] @ one_or_more Digit @ [GrpClose] @ post) p s (Capturing []) = Some res"
    and "list_all no_open post"
  shows "decimal_cap (snd res)"
proof -
  from assms(1) obtain x xs where s: "s = x # xs" and x: "is_digit x"
    and m1: "rmatch (Star Digit # Lit (CHR ''.'') # Cls Digit # Star Digit # GrpClose # post) (Some x) xs (Capturing [x]) = Some res"
    by (cases s) (auto simp: one_or_more_def split: if_splits)
  from rmatch_star_digit [OF m1] obtain ds p1 s1 where ds: "list_all is_digit ds"
    and m2: "rmatch (Lit (CHR ''.'') # Cls Digit # Star Digit # GrpClose # post) p1 s1 (Capturing ([x] @ ds)) = Some res"
    by blast
  from m2 obtain y ys where y: "is_digit y"
    and m3: "rmatch (Star Digit # GrpClose # post) (Some y) ys (Capturing (([x] @ ds) @ [CHR ''.'', y])) = Some res"
    by (cases s1; cases "tl s1") (auto split: if_splits)
  from rmatch_star_digit [OF m3] obtain es p2 s2 where es: "list_all is_digit es"
    and m4: "rmatch (GrpClose # post) p2 s2 (Capturing ((([x] @ ds) @ [CHR ''.'', y]) @ es)) = Some res"
    by blast
  let ?t = "(x # ds) @ CHR ''.'' # (y # es)"
  from m4 have "rmatch post p2 s2 (Captured ?t) = Some res" by simp
  from rmatch_settled [OF assms(2) _ this] have "snd res = Captured ?t" by simp
  moreover have "is_decimal ?t"
    using x ds y es by (intro is_decimal_parts) simp_all
  ultimately show ?thesis by (simp add: decimal_cap_def)
qed

lemma rmatch_obis:
  assumes "rmatch (obis_rx code unit) p s c = Some res"
  shows "decimal_cap (snd res)"
proof -
  let ?post = "lits (''*'' @ unit @ '')'' @ CRLF)"
  let ?rest = "one_or_more Digit @ [Lit (CHR ''.'')] @ one_or_more Digit @ [GrpClose] @ ?post"
  have e: "obis_rx code unit = (BOL # lits code @ [Lit (CHR ''('')]) @ GrpOpen # ?rest"
    by (simp add: obis_rx_def)
  have no: "list_all no_open (BOL # lits code @ [Lit (CHR ''('')])" "list_all no_open ?post"
    by simp_all
  from rmatch_to_open [OF assms e no(1)] obtain p' s' where
    "rmatch ?rest p' s' (Capturing []) = Some res" by blast
  then show ?thesis using no(2) by (rule rmatch_number)
qed

lemma rmatch_cls_digit:
  "rmatch (Cls Digit # r) p s (Capturing acc) = Some res \<Longrightarrow>
   \<exists>x p' s'. is_digit x \<and> rmatch r p' s' (Capturing (acc @ [x])) = Some res"
  by (cases s) (auto split: if_splits)

lemma rmatch_lit_cap:
  "rmatch (Lit a # r) p s (Capturing acc) = Some res \<Longrightarrow>
   \<exists>p' s'. rmatch r p' s' (Capturing (acc @ [a])) = Some res"
  by (cases s) (auto split: if_splits)

lemma rmatch_gas:
  assumes "rmatch gas_rx p s c = Some res"
  shows "decimal_cap (snd res)"
proof -
  let ?post = "Opt (lits ''*m3'') # Lit (CHR '')'') # lits CRLF"
  let ?rest = "replicate 6 (Cls Digit) @ [Lit (CHR ''.'')] @ replicate 2 (Cls Digit) @ [GrpClose] @ ?post"
  let ?pre = "[BOL, Opt (lits ''0-1:24.2.1'' @
           [Opt ([Lit (CHR ''('')] @ one_or_more Digit @ [Cls (OneOf ''SW''), Lit (CHR '')'')])]),
      Lit (CHR ''('')]"
  have e: "gas_rx = ?pre @ GrpOpen # ?rest"
    by (simp add: gas_rx_def)
  have no: "list_all no_open ?pre" "list_all no_open ?post"
    by (simp_all add: one_or_more_def)
  from rmatch_to_open [OF assms e no(1)] obtain p0 s0 where
    m: "rmatch ?rest p0 s0 (Capturing []) = Some res" by blast
  have u: "?rest = Cls Digit # Cls Digit # Cls Digit # Cls Digit # Cls Digit # Cls Digit # Lit (CHR ''.'') # Cls Digit # Cls Digit # GrpClose # ?post"
    by (simp add: eval_nat_numeral)
  from m have m0: "rmatch (Cls Digit # Cls Digit # Cls Digit # Cls Digit # Cls Digit # Cls Digit # Lit (CHR ''.'') # Cls Digit # Cls Digit # GrpClose # ?post) p0 s0 (Capturing []) = Some res"
    by (simp only: u)
  from rmatch_cls_digit [OF m0] obtain d1 p1 s1 where hd1: "is_digit d1"
    and m1: "rmatch (Cls Digit # Cls Digit # Cls Digit # Cls Digit # Cls Digit # Lit (CHR ''.'') # Cls Digit # Cls Digit # GrpClose # ?post) p1 s1 (Capturing ([] @ [d1])) = Some res"
    by blast
  note m1 = m1 [simplified append.simps]
  from rmatch_cls_digit [OF m1] obtain d2 p2 s2 where hd2: "is_digit d2"
    and m2: "rmatch (Cls Digit # Cls Digit # Cls Digit # Cls Digit # Lit (CHR ''.'') # Cls Digit # Cls Digit # GrpClose # ?post) p2 s2 (Capturing ([d1] @ [d2])) = Some res"
    by blast
  note m2 = m2 [simplified append.simps]
  from rmatch_cls_digit [OF m2] obtain d3 p3 s3 where hd3: "is_digit d3"
    and m3: "rmatch (Cls Digit # Cls Digit # Cls Digit # Lit (CHR ''.'') # Cls Digit # Cls Digit # GrpClose # ?post) p3 s3 (Capturing ([d1, d2] @ [d3])) = Some res"
    by blast
  note m3 = m3 [simplified append.simps]
  from rmatch_cls_digit [OF m3] obtain d4 p4 s4 where hd4: "is_digit d4"
    and m4: "rmatch (Cls Digit # Cls Digit # Lit (CHR ''.'') # Cls Digit # Cls Digit # GrpClose # ?post) p4 s4 (Capturing ([d1, d2, d3] @ [d4])) = Some res"
    by blast
  note m4 = m4 [simplified append.simps]
  from rmatch_cls_digit [OF m4] obtain d5 p5 s5 where hd5: "is_digit d5"
    and m5: "rmatch (Cls Digit # Lit (CHR ''.'') # Cls Digit # Cls Digit # GrpClose # ?post) p5 s5 (Capturing ([d1, d2, d3, d4] @ [d5])) = Some res"
    by blast
  note m5 = m5 [simplified append.simps]
  from rmatch_cls_digit [OF m5] obtain d6 p6 s6 where hd6: "is_digit d6"
    and m6: "rmatch (Lit (CHR ''.'') # Cls Digit # Cls Digit # GrpClose # ?post) p6 s6 (Capturing ([d1, d2, d3, d4, d5] @ [d6])) = Some res"
    by blast
  note m6 = m6 [simplified append.simps]
  from rmatch_lit_cap [OF m6] obtain p7 s7 where
    m7: "rmatch (Cls Digit # Cls Digit # GrpClose # ?post) p7 s7 (Capturing ([d1, d2, d3, d4, d5, d6] @ [CHR ''.''])) = Some res"
    by blast
  note m7 = m7 [simplified append.simps]
  from rmatch_cls_digit [OF m7] obtain d7 p8 s8 where hd7: "is_digit d7"
    and m8: "rmatch (Cls Digit # GrpClose # ?post) p8 s8 (Capturing ([d1, d2, d3, d4, d5, d6, CHR ''.''] @ [d7])) = Some res"
    by blast
  note m8 = m8 [simplified append.simps]
  from rmatch_cls_digit [OF m8] obtain d8 p9 s9 where hd8: "is_digit d8"
    and m9: "rmatch (GrpClose # ?post) p9 s9 (Capturing ([d1, d2, d3, d4, d5, d6, CHR ''.'', d7] @ [d8])) = Some res"
    by blast
  note m9 = m9 [simplified append.simps]
  from m9 have m9: "rmatch ?post p9 s9 (Captured [d1, d2, d3, d4, d5, d6, CHR ''.'', d7, d8]) = Some res"
    by simp
  from rmatch_settled [OF no(2) _ m9] have "snd res = Captured ([d1, d2, d3, d4, d5, d6] @ CHR ''.'' # [d7, d8])"
    by simp
  moreover have "is_decimal ([d1, d2, d3, d4, d5, d6] @ CHR ''.'' # [d7, d8])"
    using hd1 hd2 hd3 hd4 hd5 hd6 hd7 hd8 by (intro is_decimal_parts) simp_all
  ultimately show ?thesis by (simp add: decimal_cap_def)
qed

subsection \<open>get_float on a field pattern\<close>

lemma search_from_match:
  "search_from rx p s = Some c \<Longrightarrow> \<exists>p' s' res. rmatch rx p' s' NoCap = Some res \<and> snd res = c"
proof (induction s arbitrary: p)
  case Nil
  then show ?case by auto
next
  case (Cons x xs)
  show ?case
  proof (cases "rmatch rx p (x # xs) NoCap")
    case None
    with Cons.prems have "search_from rx (Some x) xs = Some c" by simp
    from Cons.IH [OF this] show ?thesis .
  next
    case (Some res)
    with Cons.prems have "snd res = c" by simp
    with Some show ?thesis by blast
  qed
qed

lemma is_decimal_split:
  assumes "is_decimal t"
  obtains a b where "t = a @ CHR ''.'' # b" "a \<noteq> []" "list_all is_digit a" "b \<noteq> []" "list_all is_digit b"
proof -
  let ?P = "\<lambda>c. c \<noteq> CHR ''.''"
  from assms have a: "is_digits (takeWhile ?P t)" and b: "is_digits (drop 1 (dropWhile ?P t))"
    by (simp_all add: is_decimal_def)
  from b have "drop 1 (dropWhile ?P t) \<noteq> []" unfolding is_digits_def by (rule conjunct1)
  then have ne: "dropWhile ?P t \<noteq> []" by (cases "dropWhile ?P t") simp_all
  then have "\<not> ?P (hd (dropWhile ?P t))" by (rule hd_dropWhile)
  with ne have d: "dropWhile ?P t = CHR ''.'' # drop 1 (dropWhile ?P t)"
    by (cases "dropWhile ?P t") auto
  have "t = takeWhile ?P t @ dropWhile ?P t" by simp
  with d have "t = takeWhile ?P t @ CHR ''.'' # drop 1 (dropWhile ?P t)" by simp
  with a b that show thesis by (auto simp: is_digits_def)
qed

lemma is_digit_ascii: "is_digit c \<Longrightarrow> (of_char c :: int) < 128 \<and> c \<noteq> CHR ''-'' \<and> c \<noteq> CHR ''+''"
  by (auto simp: is_digit_def)

lemma digits_val_nonneg:
  "list_all is_digit s \<Longrightarrow> 0 \<le> acc \<Longrightarrow> 0 \<le> foldl (\<lambda>a c. 10 * a + digit_val c) acc s"
proof (induction s arbitrary: acc)
  case Nil
  then show ?case by simp
next
  case (Cons x xs)
  from Cons.prems have "0 \<le> 10 * acc + digit_val x"
    by (simp add: is_digit_def digit_val_def)
  with Cons show ?case by simp
qed

lemma decimal_val_nonneg:
  assumes "is_decimal t"
  shows "0 \<le> decimal_val t"
proof -
  from assms have "0 \<le> digits_val (takeWhile (\<lambda>c. c \<noteq> CHR ''.'') t)"
    and "0 \<le> digits_val (drop 1 (dropWhile (\<lambda>c. c \<noteq> CHR ''.'') t))"
    by (simp_all add: is_decimal_def is_digits_def digits_val_def digits_val_nonneg)
  then show ?thesis by (simp add: decimal_val_def Let_def)
qed

lemma float_of_decimal:
  assumes "is_decimal t"
  shows "decode_ascii t = Inr t" "t \<noteq> []" "float_of (PStr t) = Inr (PFloat (decimal_val t))"
proof -
  from assms obtain a b where t: "t = a @ CHR ''.'' # b" and a: "a \<noteq> []" "list_all is_digit a"
    and b: "list_all is_digit b"
    by (rule is_decimal_split)
  from a b show "decode_ascii t = Inr t"
    by (auto simp: decode_ascii_def t list_all_iff dest: is_digit_ascii)
  show "t \<noteq> []" by (simp add: t)
  from a obtain c cs where c: "a = c # cs" "is_digit c" by (cases a) auto
  then have "c \<noteq> CHR ''-''" "c \<noteq> CHR ''+''" by (auto dest: is_digit_ascii)
  then have "py_float t = Inr (decimal_val t)"
    using assms by (simp add: py_float_def t c)
  then show "float_of (PStr t) = Inr (PFloat (decimal_val t))" by simp
qed

lemma get_float_cases:
  assumes dec: "\<forall>p s res. rmatch rx p s NoCap = Some res \<longrightarrow> decimal_cap (snd res)"
  shows "(re_search rx d = None \<and> get_float d rx dflt = Inr dflt) \<or>
    (\<exists>t. is_decimal t \<and> re_search rx d = Some (Captured t) \<and>
       get_float d rx dflt = Inr (PFloat (decimal_val t)))"
proof (cases "re_search rx d")
  case None
  then show ?thesis by (simp add: get_float_def get_def)
next
  case (Some c)
  then obtain p s res where "rmatch rx p s NoCap = Some res" "snd res = c"
    unfolding re_search_def by (blast dest: search_from_match)
  with dec have "decimal_cap c" by blast
  then obtain t where c: "c = Captured t" and t: "is_decimal t"
    by (cases c) (auto simp: decimal_cap_def)
  have "get d rx v = Inr (PStr t)" for v
    by (simp add: get_def Some c float_of_decimal [OF t])
  then have "get_float d rx dflt = Inr (PFloat (decimal_val t))"
    by (simp add: get_float_def float_of_decimal [OF t] del: float_of.simps)
  with Some c t show ?thesis by blast
qed

lemma field_table_decimal:
  assumes "(k, rx, dflt) \<in> set field_table" and "rmatch rx p s c = Some res"
  shows "decimal_cap (snd res)"
  using assms by (auto simp: field_table_def dest: rmatch_obis rmatch_gas)

subsection \<open>The dictionary that the constructor builds\<close>

lemma assign_step:
  "(ebind (assign ks k m) f = Inr r) = (\<exists>v. m = Inr v \<and> f (ks(k \<mapsto> v)) = Inr r)"
  by (cases m) (simp_all add: assign_def)

lemma assign_eq_Inr:
  "(assign ks k m = Inr r) = (\<exists>v. m = Inr v \<and> r = ks(k \<mapsto> v))"
  by (cases m) (auto simp: assign_def)

lemma extract_keys_structure:
  assumes "extract_keys d = Inr keys"
  obtains v1 v2 v3 v4 v5 v6 v7 v8 v9 v10 v11 v12 v13 v14 v15 a b c g where
    "get_float d (obis_rx ''1-0:1.8.1'' ''kWh'') PNone = Inr v1"
    "get_float d (obis_rx ''1-0:2.8.1'' ''kWh'') PNone = Inr v2"
    "get_float d (obis_rx ''1-0:1.8.2'' ''kWh'') PNone = Inr v3"
    "get_float d (obis_rx ''1-0:2.8.2'' ''kWh'') PNone = Inr v4"
    "get_float d (obis_rx ''1-0:1.7.0'' ''kW'') PNone = Inr v5"
    "get_float d (obis_rx ''1-0:2.7.0'' ''kW'') PNone = Inr v6"
    "get_float d (obis_rx ''1-0:32.7.0'' ''V'') PNone = Inr v7"
    "get_float d (obis_rx ''1-0:52.7.0'' ''V'') PNone = Inr v8"
    "get_float d (obis_rx ''1-0:72.7.0'' ''V'') PNone = Inr v9"
    "get_float d (obis_rx ''1-0:21.7.0'' ''kW'') PNone = Inr v10"
    "get_float d (obis_rx ''1-0:41.7.0'' ''kW'') PNone = Inr v11"
    "get_float d (obis_rx ''1-0:61.7.0'' ''kW'') PNone = Inr v12"
    "get_float d (obis_rx ''1-0:22.7.0'' ''kW'') PNone = Inr v13"
    "get_float d (obis_rx ''1-0:42.7.0'' ''kW'') PNone = Inr v14"
    "get_float d (obis_rx ''1-0:62.7.0'' ''kW'') PNone = Inr v15"
    "get_float d gas_rx (PInt 0) = Inr g"
    "keys = [''+T1'' \<mapsto> v1, ''-T1'' \<mapsto> v2, ''+T2'' \<mapsto> v3, ''-T2'' \<mapsto> v4, ''+P'' \<mapsto> v5, ''-P'' \<mapsto> v6, ''V_1'' \<mapsto> v7, ''V_2'' \<mapsto> v8, ''V_3'' \<mapsto> v9, ''+P_1'' \<mapsto> v10, ''+P_2'' \<mapsto> v11, ''+P_3'' \<mapsto> v12, ''-P_1'' \<mapsto> v13, ''-P_2'' \<mapsto> v14, ''-P_3'' \<mapsto> v15, ''+T'' \<mapsto> a, ''-T'' \<mapsto> b, ''P'' \<mapsto> c, ''G'' \<mapsto> g]"
  using assms unfolding extract_keys_def assign_step assign_eq_Inr
  by (elim exE conjE) (rule that; assumption)

lemma extract_keys_fields:
  assumes "extract_keys d = Inr keys" and "(k, rx, dflt) \<in> set field_table"
  shows "\<exists>v. get_float d rx dflt = Inr v \<and> keys k = Some v"
proof -
  from assms(1) obtain v1 v2 v3 v4 v5 v6 v7 v8 v9 v10 v11 v12 v13 v14 v15 a b c g where
    f: "get_float d (obis_rx ''1-0:1.8.1'' ''kWh'') PNone = Inr v1"
      "get_float d (obis_rx ''1-0:2.8.1'' ''kWh'') PNone = Inr v2"
      "get_float d (obis_rx ''1-0:1.8.2'' ''kWh'') PNone = Inr v3"
      "get_float d (obis_rx ''1-0:2.8.2'' ''kWh'') PNone = Inr v4"
      "get_float d (obis_rx ''1-0:1.7.0'' ''kW'') PNone = Inr v5"
      "get_float d (obis_rx ''1-0:2.7.0'' ''kW'') PNone = Inr v6"
      "get_float d (obis_rx ''1-0:32.7.0'' ''V'') PNone = Inr v7"
      "get_float d (obis_rx ''1-0:52.7.0'' ''V'') PNone = Inr v8"
      "get_float d (obis_rx ''1-0:72.7.0'' ''V'') PNone = Inr v9"
      "get_float d (obis_rx ''1-0:21.7.0'' ''kW'') PNone = Inr v10"
      "get_float d (obis_rx ''1-0:41.7.0'' ''kW'') PNone = Inr v11"
      "get_float d (obis_rx ''1-0:61.7.0'' ''kW'') PNone = Inr v12"
      "get_float d (obis_rx ''1-0:22.7.0'' ''kW'') PNone = Inr v13"
      "get_float d (obis_rx ''1-0:42.7.0'' ''kW'') PNone = Inr v14"
      "get_float d (obis_rx ''1-0:62.7.0'' ''kW'') PNone = Inr v15"
      "get_float d gas_rx (PInt 0) = Inr g"
    and K: "keys = [''+T1'' \<mapsto> v1, ''-T1'' \<mapsto> v2, ''+T2'' \<mapsto> v3, ''-T2'' \<mapsto> v4, ''+P'' \<mapsto> v5, ''-P'' \<mapsto> v6, ''V_1'' \<mapsto> v7, ''V_2'' \<mapsto> v8, ''V_3'' \<mapsto> v9, ''+P_1'' \<mapsto> v10, ''+P_2'' \<mapsto> v11, ''+P_3'' \<mapsto> v12, ''-P_1'' \<mapsto> v13, ''-P_2'' \<mapsto> v14, ''-P_3'' \<mapsto> v15, ''+T'' \<mapsto> a, ''-T'' \<mapsto> b, ''P'' \<mapsto> c, ''G'' \<mapsto> g]"
    by (rule extract_keys_structure)
  from assms(2) show ?thesis
    unfolding field_table_def list.set by (elim insertE emptyE) (simp_all add: f K)
qed

subsection \<open>An absent operand\<close>

text \<open>
  \<^verbatim>\<open>get_float\<close> never raises on a field pattern, so the constructor reaches the three
  derived fields; there an operand that is \<^verbatim>\<open>None\<close> makes the addition or the
  subtraction raise.
\<close>

lemma get_float_field:
  assumes "(k, rx, dflt) \<in> set field_table"
  shows "(re_search rx d = None \<and> get_float d rx dflt = Inr dflt) \<or>
    (\<exists>r. re_search rx d \<noteq> None \<and> get_float d rx dflt = Inr (PFloat r))"
proof -
  have dec: "\<forall>p s res. rmatch rx p s NoCap = Some res \<longrightarrow> decimal_cap (snd res)"
    using field_table_decimal [OF assms] by blast
  from get_float_cases [of rx d dflt, OF dec] show ?thesis by auto
qed

lemma ebind_assoc: "ebind (ebind m f) g = ebind m (\<lambda>x. ebind (f x) g)"
  by (cases m) simp_all

lemma py_add_None [simp]: "py_add PNone v = Inl TypeError" "py_add (PFloat r) PNone = Inl TypeError"
  by (cases v) simp_all

lemma py_sub_None [simp]: "py_sub PNone v = Inl TypeError" "py_sub (PFloat r) PNone = Inl TypeError"
  by (cases v) simp_all

lemma absent_operand_extract:
  assumes "(k, rx, dflt) \<in> set field_table" and "k \<in> set operand_fields"
    and "re_search rx d = None"
  shows "extract_keys d = Inl TypeError"
proof -
  note g = get_float_field [where d = d]
  have t: "(''+T1'', obis_rx ''1-0:1.8.1'' ''kWh'', PNone) \<in> set field_table"
    "(''-T1'', obis_rx ''1-0:2.8.1'' ''kWh'', PNone) \<in> set field_table"
    "(''+T2'', obis_rx ''1-0:1.8.2'' ''kWh'', PNone) \<in> set field_table"
    "(''-T2'', obis_rx ''1-0:2.8.2'' ''kWh'', PNone) \<in> set field_table"
    "(''+P'', obis_rx ''1-0:1.7.0'' ''kW'', PNone) \<in> set field_table"
    "(''-P'', obis_rx ''1-0:2.7.0'' ''kW'', PNone) \<in> set field_table"
    "(''V_1'', obis_rx ''1-0:32.7.0'' ''V'', PNone) \<in> set field_table"
    "(''V_2'', obis_rx ''1-0:52.7.0'' ''V'', PNone) \<in> set field_table"
    "(''V_3'', obis_rx ''1-0:72.7.0'' ''V'', PNone) \<in> set field_table"
    "(''+P_1'', obis_rx ''1-0:21.7.0'' ''kW'', PNone) \<in> set field_table"
    "(''+P_2'', obis_rx ''1-0:41.7.0'' ''kW'', PNone) \<in> set field_table"
    "(''+P_3'', obis_rx ''1-0:61.7.0'' ''kW'', PNone) \<in> set field_table"
    "(''-P_1'', obis_rx ''1-0:22.7.0'' ''kW'', PNone) \<in> set field_table"
    "(''-P_2'', obis_rx ''1-0:42.7.0'' ''kW'', PNone) \<in> set field_table"
    "(''-P_3'', obis_rx ''1-0:62.7.0'' ''kW'', PNone) \<in> set field_table"
    by (simp_all add: field_table_def)
  from g [OF t(1)] obtain v1 where v1: "get_float d (obis_rx ''1-0:1.8.1'' ''kWh'') PNone = Inr v1"
    "re_search (obis_rx ''1-0:1.8.1'' ''kWh'') d = None \<longrightarrow> v1 = PNone" "v1 = PNone \<or> (\<exists>r. v1 = PFloat r)" by auto
  from g [OF t(2)] obtain v2 where v2: "get_float d (obis_rx ''1-0:2.8.1'' ''kWh'') PNone = Inr v2"
    "re_search (obis_rx ''1-0:2.8.1'' ''kWh'') d = None \<longrightarrow> v2 = PNone" "v2 = PNone \<or> (\<exists>r. v2 = PFloat r)" by auto
  from g [OF t(3)] obtain v3 where v3: "get_float d (obis_rx ''1-0:1.8.2'' ''kWh'') PNone = Inr v3"
    "re_search (obis_rx ''1-0:1.8.2'' ''kWh'') d = None \<longrightarrow> v3 = PNone" "v3 = PNone \<or> (\<exists>r. v3 = PFloat r)" by auto
  from g [OF t(4)] obtain v4 where v4: "get_float d (obis_rx ''1-0:2.8.2'' ''kWh'') PNone = Inr v4"
    "re_search (obis_rx ''1-0:2.8.2'' ''kWh'') d = None \<longrightarrow> v4 = PNone" "v4 = PNone \<or> (\<exists>r. v4 = PFloat r)" by auto
  from g [OF t(5)] obtain v5 where v5: "get_float d (obis_rx ''1-0:1.7.0'' ''kW'') PNone = Inr v5"
    "re_search (obis_rx ''1-0:1.7.0'' ''kW'') d = None \<longrightarrow> v5 = PNone" "v5 = PNone \<or> (\<exists>r. v5 = PFloat r)" by auto
  from g [OF t(6)] obtain v6 where v6: "get_float d (obis_rx ''1-0:2.7.0'' ''kW'') PNone = Inr v6"
    "re_search (obis_rx ''1-0:2.7.0'' ''kW'') d = None \<longrightarrow> v6 = PNone" "v6 = PNone \<or> (\<exists>r. v6 = PFloat r)" by auto
  have more: "\<exists>v. get_float d (obis_rx code unit) PNone = Inr v"
    if "(k', obis_rx code unit, PNone) \<in> set field_table" for k' code unit
    using g [OF that] by auto
  from more [OF t(7)] obtain v7 where v7: "get_float d (obis_rx ''1-0:32.7.0'' ''V'') PNone = Inr v7" ..
  from more [OF t(8)] obtain v8 where v8: "get_float d (obis_rx ''1-0:52.7.0'' ''V'') PNone = Inr v8" ..
  from more [OF t(9)] obtain v9 where v9: "get_float d (obis_rx ''1-0:72.7.0'' ''V'') PNone = Inr v9" ..
  from more [OF t(10)] obtain v10 where v10: "get_float d (obis_rx ''1-0:21.7.0'' ''kW'') PNone = Inr v10" ..
  from more [OF t(11)] obtain v11 where v11: "get_float d (obis_rx ''1-0:41.7.0'' ''kW'') PNone = Inr v11" ..
  from more [OF t(12)] obtain v12 where v12: "get_float d (obis_rx ''1-0:61.7.0'' ''kW'') PNone = Inr v12" ..
  from more [OF t(13)] obtain v13 where v13: "get_float d (obis_rx ''1-0:22.7.0'' ''kW'') PNone = Inr v13" ..
  from more [OF t(14)] obtain v14 where v14: "get_float d (obis_rx ''1-0:42.7.0'' ''kW'') PNone = Inr v14" ..
  from more [OF t(15)] obtain v15 where v15: "get_float d (obis_rx ''1-0:62.7.0'' ''kW'') PNone = Inr v15" ..
  have e: "extract_keys d =
    ebind (py_add v1 v3) (\<lambda>a. ebind (py_add v2 v4) (\<lambda>b. ebind (py_sub v5 v6) (\<lambda>c.
      ebind (get_float d gas_rx (PInt 0)) (\<lambda>g. Inr [''+T1'' \<mapsto> v1, ''-T1'' \<mapsto> v2, ''+T2'' \<mapsto> v3, ''-T2'' \<mapsto> v4, ''+P'' \<mapsto> v5, ''-P'' \<mapsto> v6, ''V_1'' \<mapsto> v7, ''V_2'' \<mapsto> v8, ''V_3'' \<mapsto> v9, ''+P_1'' \<mapsto> v10, ''+P_2'' \<mapsto> v11, ''+P_3'' \<mapsto> v12, ''-P_1'' \<mapsto> v13, ''-P_2'' \<mapsto> v14, ''-P_3'' \<mapsto> v15, ''+T'' \<mapsto> a, ''-T'' \<mapsto> b, ''P'' \<mapsto> c, ''G'' \<mapsto> g]))))"
    by (simp add: extract_keys_def assign_def getitem_def ebind_assoc v1 v2 v3 v4 v5 v6 v7 v8 v9 v10 v11 v12 v13 v14 v15)
  from assms have "v1 = PNone \<or> v2 = PNone \<or> v3 = PNone \<or> v4 = PNone \<or> v5 = PNone \<or> v6 = PNone"
    unfolding field_table_def operand_fields_def list.set
    using v1(2) v2(2) v3(2) v4(2) v5(2) v6(2) by (elim insertE emptyE) simp_all
  with v1(3) v2(3) v3(3) v4(3) v5(3) v6(3) show ?thesis
    unfolding e by (elim disjE exE) simp_all
qed

subsection \<open>The example telegrams\<close>

lemma init_Inr_iff:
  "(P1Packet_init d = Inr pkt) =
   (validate d = Inr () \<and> (\<exists>keys. extract_keys d = Inr keys \<and> pkt = \<lparr>P1_datagram = d, P1_keys = keys\<rparr>))"
  by (auto simp: P1Packet_init_def ebind_eq_Inr)

lemma validate_wire:
  assumes "list_all is_hex hs" and "hs \<noteq> []"
  shows "validate (body @ CRLF @ ''!'' @ hs @ CRLF) =
      (if hex_number hs = crc16 (body @ CRLF @ ''!'') then Inr () else Inl P1PacketError)"
proof -
  have t: "trailer_split (body @ CRLF @ ''!'' @ hs @ CRLF) = Some (body @ CRLF @ ''!'', hs @ CRLF)"
    using assms(1) by (rule trailer_split_wire)
  have g: "given_checksum (hs @ CRLF) = Inr (hex_number hs)"
    using assms by (rule given_checksum_hex)
  have s: "bytes_strip (hs @ CRLF) = hs"
    using assms by (rule strip_hex)
  show ?thesis
    unfolding validate_def t by (simp add: g s assms(2))
qed

lemma crc16_append: "crc16 (a @ b) = foldl crc16_byte (crc16 a) b"
  by (simp add: crc16_def)

lemma crc_telegram_body: "crc16 telegram_body = 7315"
  by code_simp

lemma validate_frame_signed: "validate frame_signed = Inr ()"
proof -
  have e: "frame_signed = telegram_body @ CRLF @ ''!'' @ ''96AF'' @ CRLF"
    by (simp add: frame_signed_def telegram_body_def operand_lines_def)
  have "foldl crc16_byte 7315 (CRLF @ ''!'') = 38575" by code_simp
  then have c: "crc16 (telegram_body @ CRLF @ ''!'') = 38575"
    by (simp only: crc16_append crc_telegram_body)
  have h: "list_all is_hex ''96AF''" "hex_number ''96AF'' = 38575" by code_simp+
  show ?thesis
    unfolding e by (subst validate_wire) (simp_all only: h c, simp_all)
qed

lemma validate_frame_gas: "validate frame_gas = Inr ()"
proof -
  have e: "frame_gas = (telegram_body @ CRLF @ ''(123456.78)'') @ CRLF @ ''!'' @ ''7EC1'' @ CRLF"
    by (simp add: frame_gas_def telegram_body_def operand_lines_def)
  have "foldl crc16_byte 7315 (CRLF @ ''(123456.78)'' @ CRLF @ ''!'') = 32449" by code_simp
  then have c: "crc16 ((telegram_body @ CRLF @ ''(123456.78)'') @ CRLF @ ''!'') = 32449"
    by (simp only: crc16_append crc_telegram_body append_assoc)
  have h: "list_all is_hex ''7EC1''" "hex_number ''7EC1'' = 32449" by code_simp+
  show ?thesis
    unfolding e by (subst validate_wire) (simp_all only: h c, simp_all)
qed

lemma validate_frame_spec_example: "validate frame_spec_example = Inr ()"
proof -
  let ?b = "''/ISK5'' @ CRLF @ ''1-0:1.8.1(000123.456*kWh)'' @ CRLF @ ''1-0:2.8.1(000010.000*kWh)''"
  have e: "frame_spec_example = ?b @ CRLF @ ''!'' @ ''518D'' @ CRLF"
    by (simp add: frame_spec_example_def)
  have c: "crc16 (?b @ CRLF @ ''!'') = 20877" by code_simp
  have h: "list_all is_hex ''518D''" "hex_number ''518D'' = 20877" by code_simp+
  show ?thesis
    unfolding e by (subst validate_wire) (simp_all only: h c, simp_all)
qed

lemma extract_frame_signed:
  "(case extract_keys frame_signed of
      Inl e \<Rightarrow> False
    | Inr k \<Rightarrow> k ''+P'' = Some (PFloat (1 / 10)) \<and> k ''P'' = Some (PFloat (- (1 / 4))) \<and>
        k ''V_1'' = Some PNone \<and> k ''G'' = Some (PInt 0))"
  by code_simp

lemma search_frame_signed:
  "re_search (obis_rx ''1-0:32.7.0'' ''V'') frame_signed = None"
  "re_search gas_rx frame_signed = None"
  by code_simp+

lemma eval_frame_signed:
  "validate frame_signed = Inr () \<and>
   (case extract_keys frame_signed of
      Inl e \<Rightarrow> False
    | Inr k \<Rightarrow> k ''+P'' = Some (PFloat (1 / 10)) \<and> k ''P'' = Some (PFloat (- (1 / 4))) \<and>
        k ''V_1'' = Some PNone \<and> k ''G'' = Some (PInt 0))"
  using validate_frame_signed extract_frame_signed by simp

subsection \<open>Checksum validation\<close>

text \<open>
  Claim C3. When the bytes after the trailer marker are not blank, are read as the
  hexadecimal number \<open>given\<close>, and \<open>given\<close> differs from the CRC-16 of the bytes up to
  and including the marker, \<^verbatim>\<open>validate\<close> raises \<^verbatim>\<open>P1PacketError\<close>, and so does the
  constructor: it calls \<^verbatim>\<open>validate\<close> before the first field is read, so no field is
  extracted and no packet is built.
\<close>

theorem checksum_mismatch_rejects:
  assumes "trailer_split d = Some (packet, checksum)"
    and "bytes_strip checksum \<noteq> []"
    and "given_checksum checksum = Inr given"
    and "given \<noteq> crc16 packet"
  shows "validate d = Inl P1PacketError \<and> P1Packet_init d = Inl P1PacketError"
proof -
  have "validate d = Inl P1PacketError"
    using assms by (simp add: validate_def)
  then show ?thesis by (simp add: P1Packet_init_def)
qed

theorem checksum_mismatch_rejects_witness:
  "trailer_split (''/H'' @ CRLF @ ''!0000'' @ CRLF) = Some (''/H'' @ CRLF @ ''!'', ''0000'' @ CRLF) \<and>
   bytes_strip (''0000'' @ CRLF) \<noteq> [] \<and>
   given_checksum (''0000'' @ CRLF) = Inr 0 \<and>
   crc16 (''/H'' @ CRLF @ ''!'') = 7573 \<and>
   validate (''/H'' @ CRLF @ ''!0000'' @ CRLF) = Inl P1PacketError \<and>
   P1Packet_init (''/H'' @ CRLF @ ''!0000'' @ CRLF) = Inl P1PacketError"
proof -
  have h1: "trailer_split (''/H'' @ CRLF @ ''!0000'' @ CRLF) = Some (''/H'' @ CRLF @ ''!'', ''0000'' @ CRLF)"
    by code_simp
  have h2: "bytes_strip (''0000'' @ CRLF) \<noteq> []"
    by code_simp
  have h3: "given_checksum (''0000'' @ CRLF) = Inr 0"
    by code_simp
  note c = crc16_small
  then have h4: "(0::int) \<noteq> crc16 (''/H'' @ CRLF @ ''!'')"
    by simp
  from checksum_mismatch_rejects [OF h1 h2 h3 h4] h1 h2 h3 c show ?thesis
    by simp
qed

text \<open>
  Claim C6 (the code does not do this). The claim asks for a structural error when
  the datagram has no \<^verbatim>\<open>\r\n\<close> directly before a \<^verbatim>\<open>!\<close>. \<^verbatim>\<open>validate\<close> has no test
  for that case and no such error: its \<^verbatim>\<open>for\<close> loop finds no match, the locals
  \<^verbatim>\<open>packet\<close> and \<^verbatim>\<open>checksum\<close> are never assigned, and the test \<^verbatim>\<open>checksum.strip()\<close>
  after the loop fails with Python's \<^verbatim>\<open>UnboundLocalError\<close>, for every such datagram.
  The constructor stops with the same error before it reads a field.
\<close>

theorem no_boundary_unbound:
  assumes "\<not> (\<exists>a b. d = a @ CRLF @ ''!'' @ b)"
  shows "validate d = Inl UnboundLocalError \<and> P1Packet_init d = Inl UnboundLocalError"
proof -
  have "bends d 0 = []"
    using assms by (rule bends_no_boundary)
  then have "trailer_split d = None"
    by (simp add: trailer_split_bends)
  then have "validate d = Inl UnboundLocalError"
    by (simp add: validate_def)
  then show ?thesis by (simp add: P1Packet_init_def)
qed

theorem no_boundary_unbound_witness:
  "\<not> (\<exists>a b. ''/H'' @ [LF] @ ''!0000'' @ [LF] = a @ CRLF @ ''!'' @ b) \<and>
   validate (''/H'' @ [LF] @ ''!0000'' @ [LF]) = Inl UnboundLocalError \<and>
   P1Packet_init (''/H'' @ [LF] @ ''!0000'' @ [LF]) = Inl UnboundLocalError"
proof -
  have h: "\<not> (\<exists>a b. ''/H'' @ [LF] @ ''!0000'' @ [LF] = a @ CRLF @ ''!'' @ b)"
  proof
    assume "\<exists>a b. ''/H'' @ [LF] @ ''!0000'' @ [LF] = a @ CRLF @ ''!'' @ b"
    then obtain a b where "''/H'' @ [LF] @ ''!0000'' @ [LF] = a @ CRLF @ ''!'' @ b"
      by blast
    then have "set (''/H'' @ [LF] @ ''!0000'' @ [LF]) = set (a @ CRLF @ ''!'' @ b)"
      by (rule arg_cong)
    then have "CR \<in> set (''/H'' @ [LF] @ ''!0000'' @ [LF])"
      by (simp add: CRLF_def)
    then show False by (simp add: CR_def LF_def)
  qed
  from no_boundary_unbound [OF h] h show ?thesis by simp
qed

text \<open>
  Claim C7. For a datagram that ends in \<^verbatim>\<open>\r\n!\<close>, four hexadecimal digits and
  \<^verbatim>\<open>\r\n\<close>: \<^verbatim>\<open>packet\<close> is the datagram from its start through the \<^verbatim>\<open>!\<close>, the given
  checksum is the number the four digits denote in base 16, and \<^verbatim>\<open>validate\<close> accepts
  exactly when that number is the CRC-16 of \<^verbatim>\<open>packet\<close>.
\<close>

theorem checksum_regions:
  assumes "length hs = 4" and "list_all is_hex hs"
  shows "trailer_split (body @ CRLF @ ''!'' @ hs @ CRLF) = Some (body @ CRLF @ ''!'', hs @ CRLF) \<and>
    given_checksum (hs @ CRLF) = Inr (hex_number hs) \<and>
    validate (body @ CRLF @ ''!'' @ hs @ CRLF) =
      (if hex_number hs = crc16 (body @ CRLF @ ''!'') then Inr () else Inl P1PacketError)"
proof -
  from assms(1) have ne: "hs \<noteq> []" by auto
  have t: "trailer_split (body @ CRLF @ ''!'' @ hs @ CRLF) = Some (body @ CRLF @ ''!'', hs @ CRLF)"
    using assms(2) by (rule trailer_split_wire)
  have g: "given_checksum (hs @ CRLF) = Inr (hex_number hs)"
    using assms(2) ne by (rule given_checksum_hex)
  have s: "bytes_strip (hs @ CRLF) = hs"
    using assms(2) ne by (rule strip_hex)
  have "validate (body @ CRLF @ ''!'' @ hs @ CRLF) =
      (if hex_number hs = crc16 (body @ CRLF @ ''!'') then Inr () else Inl P1PacketError)"
    unfolding validate_def t by (simp add: g s ne)
  with t g show ?thesis by simp
qed

theorem checksum_regions_witness:
  "length ''1D95'' = 4 \<and> list_all is_hex ''1D95'' \<and>
   trailer_split (''/H'' @ CRLF @ ''!'' @ ''1D95'' @ CRLF) = Some (''/H'' @ CRLF @ ''!'', ''1D95'' @ CRLF) \<and>
   given_checksum (''1D95'' @ CRLF) = Inr 7573 \<and>
   crc16 (''/H'' @ CRLF @ ''!'') = 7573 \<and>
   validate (''/H'' @ CRLF @ ''!'' @ ''1D95'' @ CRLF) = Inr ()"
proof -
  have h1: "length ''1D95'' = 4" by simp
  have h2: "list_all is_hex ''1D95''" by code_simp
  have n: "hex_number ''1D95'' = 7573" by code_simp
  note c = crc16_small
  from checksum_regions [OF h1 h2, of "''/H''"] h1 h2 n c show ?thesis
    by simp
qed

text \<open>
  Claim C8. When the bytes after the trailer marker are blank, \<^verbatim>\<open>validate\<close> returns
  without computing or comparing a checksum and raises nothing, and the constructor
  goes on to read the fields as it does after a successful comparison.
\<close>

theorem bare_trailer_unchecked:
  assumes "trailer_split d = Some (packet, checksum)"
    and "bytes_strip checksum = []"
  shows "validate d = Inr () \<and>
    P1Packet_init d = ebind (extract_keys d) (\<lambda>keys. Inr \<lparr>P1_datagram = d, P1_keys = keys\<rparr>)"
proof -
  have "validate d = Inr ()"
    using assms by (simp add: validate_def)
  then show ?thesis by (simp add: P1Packet_init_def)
qed

theorem bare_trailer_unchecked_witness:
  "trailer_split frame_bare = Some (''/ISK5'' @ CRLF @ operand_lines @ ''!'', CRLF) \<and>
   bytes_strip CRLF = [] \<and>
   validate frame_bare = Inr () \<and>
   (case P1Packet_init frame_bare of
      Inl e \<Rightarrow> False
    | Inr p \<Rightarrow> P1_keys p ''P'' = Some (PFloat (- (1 / 4))))"
proof -
  have h1: "trailer_split frame_bare = Some (''/ISK5'' @ CRLF @ operand_lines @ ''!'', CRLF)"
    by code_simp
  have h2: "bytes_strip CRLF = []"
    by code_simp
  from bare_trailer_unchecked [OF h1 h2] extract_frame_bare h1 h2 show ?thesis
    by (simp split: sum.splits)
qed

subsection \<open>The frame reader\<close>

text \<open>
  Claim C2 (the code does not do this). The claim asks for an error once a frame
  attempt has read more than 35 lines. The loop of \<^verbatim>\<open>read_one_packet\<close> counts the
  lines in \<^verbatim>\<open>lines_read\<close> and sets \<^verbatim>\<open>max_lines = 35\<close>, but never compares the two:
  for every \<open>n\<close>, also 40 and more, it reads \<open>n\<close> data lines, the header line and
  the trailer line and returns the datagram without raising anything.
\<close>

theorem read_loop_no_line_bound:
  "read_loop (unbounded_port n) reader_init = Some (Inr (''/ISK5'' @ CRLF @ ''!'' @ CRLF))"
  by (rule read_loop_body_lines [where m = n]) (simp_all add: reader_init_def)

theorem read_loop_no_line_bound_witness:
  "read_loop (lines_then_silence (replicate 40 body_line @ [''/ISK5'' @ CRLF, ''!'' @ CRLF])) reader_init =
     Some (Inr (''/ISK5'' @ CRLF @ ''!'' @ CRLF))"
  using read_loop_no_line_bound [of 40] by (simp only: unbounded_port_def)

text \<open>
  Claim C4, as amended. A line with a \<^verbatim>\<open>/\<close> in it (a line as \<^verbatim>\<open>readline\<close> returns
  it: a line feed can only be its last byte) makes the loop body drop what was
  accumulated, set \<^verbatim>\<open>startFound\<close>, clear \<^verbatim>\<open>endFound\<close> and store \<^verbatim>\<open>line.lstrip()\<close>:
  the line without its leading whitespace. Other bytes before the \<^verbatim>\<open>/\<close> stay. The
  lines \<^verbatim>\<open>noise\r\n\<close>, \<^verbatim>\<open>/HEADER\r\n\<close>, \<^verbatim>\<open>!ABCD\r\n\<close> leave the datagram
  \<^verbatim>\<open>/HEADER\r\n!ABCD\r\n\<close>.
\<close>

theorem header_line_resets:
  assumes "CHR ''/'' \<in> set line" and "LF \<notin> set (butlast line)"
    and "src 0 = Some (''noise'' @ CRLF)" and "src 1 = Some (''/HEADER'' @ CRLF)"
    and "src 2 = Some (''!ABCD'' @ CRLF)"
  shows "loop_body line st =
      \<lparr>datagram = bytes_lstrip line, lines_read = lines_read st + 1,
       startFound = True, endFound = False\<rparr> \<and>
    read_loop src reader_init = Some (Inr (''/HEADER'' @ CRLF @ ''!ABCD'' @ CRLF))"
proof -
  have "CHR ''/'' \<noteq> LF" by (simp add: LF_def)
  with assms(1,2) have "CHR ''/'' \<in> set (takeWhile (\<lambda>x. x \<noteq> LF) line)"
    by (rule readline_takeWhile)
  then have "re_match header_rx line \<noteq> None"
    by (simp only: header_line_iff)
  then show ?thesis
    using noise_example [OF assms(3-5)] by (simp add: loop_body_header)
qed

theorem header_line_resets_witness:
  "CHR ''/'' \<in> set (''  /ISK5'' @ CRLF) \<and> LF \<notin> set (butlast (''  /ISK5'' @ CRLF)) \<and>
   loop_body (''  /ISK5'' @ CRLF)
     \<lparr>datagram = ''old'', lines_read = 7, startFound = True, endFound = False\<rparr> =
     \<lparr>datagram = ''/ISK5'' @ CRLF, lines_read = 8, startFound = True, endFound = False\<rparr> \<and>
   read_loop (lines_then_silence [''noise'' @ CRLF, ''/HEADER'' @ CRLF, ''!ABCD'' @ CRLF]) reader_init =
     Some (Inr (''/HEADER'' @ CRLF @ ''!ABCD'' @ CRLF))"
proof -
  have h1: "CHR ''/'' \<in> set (''  /ISK5'' @ CRLF)" by simp
  have h2: "LF \<notin> set (butlast (''  /ISK5'' @ CRLF))" by (simp add: CRLF_def CR_def LF_def)
  have l: "bytes_lstrip (''  /ISK5'' @ CRLF) = ''/ISK5'' @ CRLF" by code_simp
  have s: "lines_then_silence [''noise'' @ CRLF, ''/HEADER'' @ CRLF, ''!ABCD'' @ CRLF] 0 = Some (''noise'' @ CRLF)"
    "lines_then_silence [''noise'' @ CRLF, ''/HEADER'' @ CRLF, ''!ABCD'' @ CRLF] 1 = Some (''/HEADER'' @ CRLF)"
    "lines_then_silence [''noise'' @ CRLF, ''/HEADER'' @ CRLF, ''!ABCD'' @ CRLF] 2 = Some (''!ABCD'' @ CRLF)"
    by (simp_all add: lines_then_silence_def)
  from header_line_resets [OF h1 h2 s, of "\<lparr>datagram = ''old'', lines_read = 7, startFound = True, endFound = False\<rparr>"]
    h1 h2 l show ?thesis by simp
qed

text \<open>
  The claim as the specification states it fails: the header line \<^verbatim>\<open>x/HEADER\r\n\<close> is
  stored with the \<^verbatim>\<open>x\<close> before the marker, and the datagram starts with it.
\<close>

theorem header_prefix_kept:
  "re_match header_rx (''x/HEADER'' @ CRLF) \<noteq> None \<and>
   datagram (loop_body (''x/HEADER'' @ CRLF) reader_init) = ''x/HEADER'' @ CRLF \<and>
   datagram (loop_body (''x/HEADER'' @ CRLF) reader_init) \<noteq>
     dropWhile (\<lambda>c. c \<noteq> CHR ''/'') (''x/HEADER'' @ CRLF) \<and>
   read_loop (lines_then_silence [''x/HEADER'' @ CRLF, ''!ABCD'' @ CRLF]) reader_init =
     Some (Inr (''x/HEADER'' @ CRLF @ ''!ABCD'' @ CRLF))"
  by code_simp

subsection \<open>Field extraction\<close>

text \<open>
  Claim C1 (the code does not do this). The claim asks for a record whose derived
  fields count an absent operand as 0. \<^verbatim>\<open>get_float\<close> returns \<^verbatim>\<open>None\<close> for an absent
  operand, and \<^verbatim>\<open>keys['+T1'] + keys['+T2']\<close>, \<^verbatim>\<open>keys['-T1'] + keys['-T2']\<close> or
  \<^verbatim>\<open>keys['+P'] - keys['-P']\<close> then raises \<^verbatim>\<open>TypeError\<close>: whenever a datagram that
  passes \<^verbatim>\<open>validate\<close> lacks one of the six operands, the constructor yields no record.
  The example telegram of the specification, which has \<^verbatim>\<open>+T1\<close> and \<^verbatim>\<open>-T1\<close> and a
  correct checksum but no \<^verbatim>\<open>+T2\<close>, is such a datagram.
\<close>

theorem absent_operand_no_record:
  assumes "(k, rx, dflt) \<in> set field_table" and "k \<in> set operand_fields"
    and "re_search rx d = None" and "validate d = Inr ()"
  shows "P1Packet_init d = Inl TypeError"
  using absent_operand_extract [OF assms(1-3)] assms(4) by (simp add: P1Packet_init_def)

theorem absent_operand_type_error:
  "(''+T2'', obis_rx ''1-0:1.8.2'' ''kWh'', PNone) \<in> set field_table \<and>
   ''+T2'' \<in> set operand_fields \<and>
   re_search (obis_rx ''1-0:1.8.2'' ''kWh'') frame_spec_example = None \<and>
   validate frame_spec_example = Inr () \<and>
   P1Packet_init frame_spec_example = Inl TypeError"
proof -
  have h1: "(''+T2'', obis_rx ''1-0:1.8.2'' ''kWh'', PNone) \<in> set field_table"
    by (simp add: field_table_def)
  have h2: "''+T2'' \<in> set operand_fields"
    by (simp add: operand_fields_def)
  have h3: "re_search (obis_rx ''1-0:1.8.2'' ''kWh'') frame_spec_example = None"
    by code_simp
  note h4 = validate_frame_spec_example
  from absent_operand_no_record [OF h1 h2 h3 h4] h1 h2 h3 h4 show ?thesis
    by simp
qed

text \<open>
  Claim C5, as amended. In a record that the constructor returns, a field other than
  the six operands whose pattern matches nowhere in the datagram holds the default of
  its \<^verbatim>\<open>get_float\<close> call: \<^verbatim>\<open>None\<close> for the voltages and the powers per phase, and the
  integer 0 for \<^verbatim>\<open>G\<close>.
\<close>

theorem absent_field_default:
  assumes "P1Packet_init d = Inr pkt" and "(k, rx, dflt) \<in> set field_table"
    and "k \<notin> set operand_fields" and "re_search rx d = None"
  shows "P1_keys pkt k = Some dflt \<and> dflt = (if k = ''G'' then PInt 0 else PNone)"
proof -
  from assms(1) obtain keys where e: "extract_keys d = Inr keys" and p: "P1_keys pkt = keys"
    by (auto simp: init_Inr_iff)
  from extract_keys_fields [OF e assms(2)] obtain v where
    v: "get_float d rx dflt = Inr v" "keys k = Some v" by blast
  from assms(4) have "get_float d rx dflt = Inr dflt"
    by (simp add: get_float_def get_def)
  with v p have "P1_keys pkt k = Some dflt" by simp
  moreover from assms(2) have "dflt = (if k = ''G'' then PInt 0 else PNone)"
    unfolding field_table_def list.set by (elim insertE emptyE) simp_all
  ultimately show ?thesis by simp
qed

theorem absent_field_default_witness:
  "\<exists>pkt. P1Packet_init frame_signed = Inr pkt \<and>
     (''V_1'', obis_rx ''1-0:32.7.0'' ''V'', PNone) \<in> set field_table \<and>
     ''V_1'' \<notin> set operand_fields \<and>
     re_search (obis_rx ''1-0:32.7.0'' ''V'') frame_signed = None \<and>
     P1_keys pkt ''V_1'' = Some PNone"
proof -
  from eval_frame_signed obtain keys where v: "validate frame_signed = Inr ()"
    and e: "extract_keys frame_signed = Inr keys"
    by (cases "extract_keys frame_signed") simp_all
  let ?pkt = "\<lparr>P1_datagram = frame_signed, P1_keys = keys\<rparr>"
  have h1: "P1Packet_init frame_signed = Inr ?pkt" by (simp add: init_Inr_iff v e)
  have h2: "(''V_1'', obis_rx ''1-0:32.7.0'' ''V'', PNone) \<in> set field_table"
    by (simp add: field_table_def)
  have h3: "''V_1'' \<notin> set operand_fields" by (simp add: operand_fields_def)
  note h4 = search_frame_signed(1)
  from absent_field_default [OF h1 h2 h3 h4] h1 h2 h3 h4 show ?thesis by auto
qed

text \<open>
  The claim as the specification states it fails for \<^verbatim>\<open>G\<close>: a telegram with a correct
  checksum and no gas line gives a record in which \<^verbatim>\<open>G\<close> is 0, not \<^verbatim>\<open>None\<close>.
\<close>

theorem gas_absent_is_zero:
  "validate frame_signed = Inr () \<and> re_search gas_rx frame_signed = None \<and>
   (case P1Packet_init frame_signed of
      Inl e \<Rightarrow> False
    | Inr p \<Rightarrow> P1_keys p ''G'' = Some (PInt 0) \<and> P1_keys p ''G'' \<noteq> Some PNone)"
proof -
  from eval_frame_signed obtain keys where v: "validate frame_signed = Inr ()"
    and e: "extract_keys frame_signed = Inr keys" and g: "keys ''G'' = Some (PInt 0)"
    by (cases "extract_keys frame_signed") simp_all
  show ?thesis
    by (simp add: P1Packet_init_def v e g search_frame_signed)
qed

text \<open>
  Claim C9. In a record that the constructor returns, every field read with
  \<^verbatim>\<open>get_float\<close> is stored and is not negative: it holds its default (\<^verbatim>\<open>None\<close>, or 0
  for \<^verbatim>\<open>G\<close>), or the float of the text that group 1 of its pattern captured, and that
  text is an unsigned decimal literal, digits, a point, digits. (The witness also
  shows the derived field \<^verbatim>\<open>P\<close> with a negative value.)
\<close>

theorem fields_nonnegative:
  assumes "P1Packet_init d = Inr pkt" and "(k, rx, dflt) \<in> set field_table"
  shows "\<exists>v. P1_keys pkt k = Some v \<and> nonneg_val v \<and>
    (v = dflt \<or> (\<exists>t. is_decimal t \<and> re_search rx d = Some (Captured t) \<and> v = PFloat (decimal_val t)))"
proof -
  from assms(1) obtain keys where e: "extract_keys d = Inr keys" and p: "P1_keys pkt = keys"
    by (auto simp: init_Inr_iff)
  from extract_keys_fields [OF e assms(2)] obtain v where
    v: "get_float d rx dflt = Inr v" "keys k = Some v" by blast
  have dec: "\<forall>p s res. rmatch rx p s NoCap = Some res \<longrightarrow> decimal_cap (snd res)"
    using field_table_decimal [OF assms(2)] by blast
  from assms(2) have d0: "nonneg_val dflt"
    unfolding field_table_def list.set by (elim insertE emptyE) simp_all
  from get_float_cases [of rx d dflt, OF dec] v(1) d0
  have "nonneg_val v \<and>
    (v = dflt \<or> (\<exists>t. is_decimal t \<and> re_search rx d = Some (Captured t) \<and> v = PFloat (decimal_val t)))"
    by (auto simp: decimal_val_nonneg)
  with v(2) p show ?thesis by simp
qed

theorem fields_nonnegative_witness:
  "\<exists>pkt. P1Packet_init frame_signed = Inr pkt \<and>
     (''+P'', obis_rx ''1-0:1.7.0'' ''kW'', PNone) \<in> set field_table \<and>
     P1_keys pkt ''+P'' = Some (PFloat (1 / 10)) \<and> nonneg_val (PFloat (1 / 10)) \<and>
     P1_keys pkt ''P'' = Some (PFloat (- (1 / 4)))"
proof -
  from eval_frame_signed obtain keys where v: "validate frame_signed = Inr ()"
    and e: "extract_keys frame_signed = Inr keys"
    and k: "keys ''+P'' = Some (PFloat (1 / 10))" "keys ''P'' = Some (PFloat (- (1 / 4)))"
    by (cases "extract_keys frame_signed") simp_all
  let ?pkt = "\<lparr>P1_datagram = frame_signed, P1_keys = keys\<rparr>"
  have h1: "P1Packet_init frame_signed = Inr ?pkt" by (simp add: init_Inr_iff v e)
  have h2: "(''+P'', obis_rx ''1-0:1.7.0'' ''kW'', PNone) \<in> set field_table"
    by (simp add: field_table_def)
  from fields_nonnegative [OF h1 h2] h1 h2 k show ?thesis by auto
qed

text \<open>
  Claim C10. The code prefix of the gas pattern is optional: the telegram \<open>frame_gas\<close>
  has a correct checksum, holds the line \<^verbatim>\<open>(123456.78)\<close> with no OBIS code and no unit,
  and the constructor stores 123456.78 under \<^verbatim>\<open>G\<close>.
\<close>

theorem bare_gas_line_parsed:
  "validate frame_gas = Inr () \<and>
   frame_gas = ''/ISK5'' @ CRLF @ operand_lines @ ''(123456.78)'' @ CRLF @ ''!7EC1'' @ CRLF \<and>
   (case P1Packet_init frame_gas of
      Inl e \<Rightarrow> False
    | Inr p \<Rightarrow> P1_keys p ''G'' = Some (PFloat (12345678 / 100)))"
proof -
  note v = validate_frame_gas
  have "(case extract_keys frame_gas of
      Inl e \<Rightarrow> False | Inr k \<Rightarrow> k ''G'' = Some (PFloat (12345678 / 100)))"
    by code_simp
  then obtain keys where e: "extract_keys frame_gas = Inr keys"
    and g: "keys ''G'' = Some (PFloat (12345678 / 100))"
    by (cases "extract_keys frame_gas") simp_all
  show ?thesis
    by (simp add: P1Packet_init_def v e g) (simp add: frame_gas_def)
qed

end
